theory Spec2Isabelle
  imports Main "HOL-Library.Char_ord" "HOL-Library.List_Lexorder" "HOL-Library.AList"
begin

section \<open>Batch face detection script (scripts/batch\_detect.py)\<close>

subsection \<open>Paths and file names\<close>

text \<open>
  A \<open>pathlib.Path\<close> is the list of its parts; \<open>d / n\<close> is \<open>d @ [n]\<close>.  Python orders
  paths part by part and strings character by character, which is the lexicographic
  order of \<open>HOL-Library.List_Lexorder\<close> over the byte order of \<open>HOL-Library.Char_ord\<close>
  (UTF-8 keeps the order of code points).
\<close>

type_synonym path = "string list"

text \<open>\<open>Path.name\<close>: the final part, the empty string for a path with no parts.\<close>

definition name :: "path \<Rightarrow> string" where
  "name p = (if p = [] then [] else last p)"

text \<open>\<open>Path.parent\<close>.\<close>

definition parent :: "path \<Rightarrow> path" where
  "parent p = butlast p"

text \<open>\<open>str.rfind\<close> for a single character: the highest index holding it (Python returns -1 when there is none).\<close>

definition rfind :: "string \<Rightarrow> char \<Rightarrow> nat option" where
  "rfind s c = (if c \<in> set s
                then Some (length s - 1 - length (takeWhile (\<lambda>x. x \<noteq> c) (rev s)))
                else None)"

text \<open>
  \<open>Path.suffix\<close> as pathlib computes it: with \<open>i = name.rfind('.')\<close>, the text from
  \<open>i\<close> on when \<open>0 < i < len(name) - 1\<close>, the empty string otherwise.
\<close>

definition suffix :: "path \<Rightarrow> string" where
  "suffix p = (case rfind (name p) (CHR ''.'') of
                 None \<Rightarrow> []
               | Some i \<Rightarrow> (if 0 < i \<and> i + 1 < length (name p) then drop i (name p) else []))"

text \<open>
  \<open>str.lower\<close> on the ASCII letters.  Bytes outside \<open>A..Z\<close> are kept: no character
  outside ASCII lowers to a single letter used by the extensions below, so membership
  of \<open>lower s\<close> in \<open>exts\<close> is what Python computes.
\<close>

definition lower_char :: "char \<Rightarrow> char" where
  "lower_char c = (let n = (of_char c :: nat) in
                     if 65 \<le> n \<and> n \<le> 90 then char_of (n + 32) else c)"

definition lower :: "string \<Rightarrow> string" where
  "lower s = map lower_char s"

subsection \<open>The file system\<close>

text \<open>
  What the script sees of the file system: an association list from paths to nodes,
  read with \<open>map_of\<close> (the first entry of a path counts) and listed in the order of the
  list, which stands for the arbitrary order of \<open>os.listdir\<close>.  The path with no parts
  is the directory the relative paths start from; it always exists.  \<open>Other\<close> is
  anything that is neither a regular file nor a directory.
\<close>

datatype node = File string | Dir | Other

type_synonym filesystem = "(path \<times> node) list"

definition lookup :: "filesystem \<Rightarrow> path \<Rightarrow> node option" where
  "lookup fs p = (if p = [] then Some Dir else map_of fs p)"

definition is_dir :: "filesystem \<Rightarrow> path \<Rightarrow> bool" where
  "is_dir fs p = (lookup fs p = Some Dir)"

definition is_file :: "filesystem \<Rightarrow> path \<Rightarrow> bool" where
  "is_file fs p = (case lookup fs p of Some (File _) \<Rightarrow> True | _ \<Rightarrow> False)"

text \<open>
  Exceptions carry their \<open>str()\<close>.  \<open>Exc\<close> is an instance of \<open>Exception\<close>; \<open>NonExc\<close> is a
  \<open>BaseException\<close> outside \<open>Exception\<close> (\<open>KeyboardInterrupt\<close>, \<open>SystemExit\<close>), which an
  \<open>except Exception\<close> clause lets through.
\<close>

datatype exc = Exc string | NonExc string

text \<open>
  \<open>Path.iterdir\<close>: the entries directly in \<open>d\<close>, each once, as paths \<open>d / n\<close>; it raises
  when \<open>d\<close> is not a directory.
\<close>

definition iterdir :: "filesystem \<Rightarrow> path \<Rightarrow> exc + path list" where
  "iterdir fs d =
     (if is_dir fs d
      then Inr (filter (\<lambda>p. p \<noteq> [] \<and> parent p = d) (remdups (map fst fs)))
      else Inl (Exc ''Not a directory''))"

subsection \<open>iter\_images\<close>

definition exts :: "string set" where
  "exts = {''.jpg'', ''.jpeg'', ''.png'', ''.bmp'', ''.webp'', ''.tif'', ''.tiff''}"

text \<open>
  The generator, consumed whole by \<open>list(...)\<close> in \<open>main\<close>: the sorted listing, filtered.
\<close>

definition iter_images :: "filesystem \<Rightarrow> path \<Rightarrow> exc + path list" where
  "iter_images fs in_dir =
     (case iterdir fs in_dir of
        Inl e \<Rightarrow> Inl e
      | Inr entries \<Rightarrow>
          Inr (filter (\<lambda>path. is_file fs path \<and> lower (suffix path) \<in> exts) (sort entries)))"

subsection \<open>File system operations used by the script\<close>

text \<open>
  \<open>Path.mkdir(parents=True, exist_ok=True)\<close>: nothing to do for an existing directory,
  an error for any other existing node, and otherwise the missing ancestors are created
  first, as pathlib does on \<open>FileNotFoundError\<close>.
\<close>

function mkdir :: "filesystem \<Rightarrow> path \<Rightarrow> exc + filesystem" where
  "mkdir fs p =
     (case lookup fs p of
        Some Dir \<Rightarrow> Inr fs
      | Some _ \<Rightarrow> Inl (Exc ''File exists'')
      | None \<Rightarrow>
          (case lookup fs (parent p) of
             Some Dir \<Rightarrow> Inr (AList.update p Dir fs)
           | Some _ \<Rightarrow> Inl (Exc ''Not a directory'')
           | None \<Rightarrow>
               (case mkdir fs (parent p) of
                  Inl e \<Rightarrow> Inl e
                | Inr fs' \<Rightarrow> Inr (AList.update p Dir fs'))))"
  by pat_completeness auto
termination
proof (relation "measure (\<lambda>(fs, p). length p)")
  show "wf (measure (\<lambda>(fs, p). length p))" by simp
next
  fix fs :: filesystem and p :: path
  assume "lookup fs p = None"
  then have "p \<noteq> []" by (auto simp: lookup_def)
  then show "((fs, parent p), (fs, p)) \<in> measure (\<lambda>(fs, p). length p)"
    by (simp add: parent_def)
qed

text \<open>
  Opening \<open>p\<close> for writing and storing \<open>bytes\<close>: the parent must be a directory and \<open>p\<close>
  absent or a regular file (the model refuses to write over anything else).
\<close>

definition write_file :: "filesystem \<Rightarrow> path \<Rightarrow> string \<Rightarrow> exc + filesystem" where
  "write_file fs p bytes =
     (if p = [] \<or> is_dir fs p then Inl (Exc ''Is a directory'')
      else if \<not> is_dir fs (parent p) then Inl (Exc ''No such file or directory'')
      else if lookup fs p = Some Other then Inl (Exc ''Cannot write'')
      else Inr (AList.update p (File bytes) fs))"

subsection \<open>Detected faces\<close>

text \<open>
  The records of the detector library that the script reads.  The coordinate fields
  \<open>x\<close> and \<open>y\<close> of a point are named \<open>point_x\<close> and \<open>point_y\<close> here.  The coordinate type
  \<open>'c\<close> is left open; the script only adds and subtracts the radius.
\<close>

record 'c point =
  point_x :: 'c
  point_y :: 'c

record 'c bbox =
  upper_left :: "'c point"
  lower_right :: "'c point"

record 'c keypoints =
  left_eye :: "'c point"
  right_eye :: "'c point"
  nose :: "'c point"
  left_mouth :: "'c point"
  right_mouth :: "'c point"

record 'c face =
  bbox :: "'c bbox"
  keypoints :: "'c keypoints"

subsection \<open>The libraries\<close>

text \<open>
  The imaging library and the detector are outside the script; each call the script
  makes is a field here, and each may raise.  \<open>'img\<close> is a decoded image, \<open>'det\<close> a loaded
  detector, \<open>'th\<close> a \<open>Threshold\<close>, \<open>'f\<close> the float given on the command line.
  \<^item> \<open>image_open\<close>: \<open>Image.open\<close>, on the bytes of the file;
  \<^item> \<open>convert\<close>: \<open>img.convert(mode)\<close>;
  \<^item> \<open>from_path\<close>: \<open>SCRFD.from_path\<close>, which reads the model file;
  \<^item> \<open>Threshold\<close>: \<open>Threshold(probability=...)\<close>;
  \<^item> \<open>detect\<close>: \<open>detector.detect(img, threshold=...)\<close>;
  \<^item> \<open>Draw\<close>: \<open>ImageDraw.Draw(img)\<close>, which wraps the image (\<open>Some e\<close> when it raises);
  \<^item> \<open>rectangle\<close>: \<open>draw.rectangle(xy, outline=..., width=...)\<close>, returning the image drawn on;
  \<^item> \<open>ellipse\<close>: \<open>draw.ellipse(xy, outline=..., fill=...)\<close>, likewise;
  \<^item> \<open>save_encode\<close>: the encoding \<open>img.save\<close> does, in the format of the file name.
\<close>

record ('img, 'det, 'th, 'f, 'c) library =
  image_open :: "string \<Rightarrow> exc + 'img"
  convert :: "'img \<Rightarrow> string \<Rightarrow> exc + 'img"
  from_path :: "filesystem \<Rightarrow> path \<Rightarrow> exc + 'det"
  Threshold :: "'f \<Rightarrow> exc + 'th"
  detect :: "'det \<Rightarrow> 'img \<Rightarrow> 'th \<Rightarrow> exc + 'c face list"
  Draw :: "'img \<Rightarrow> exc option"
  rectangle :: "'img \<Rightarrow> 'c list \<Rightarrow> string \<Rightarrow> nat \<Rightarrow> exc + 'img"
  ellipse :: "'img \<Rightarrow> 'c \<times> 'c \<times> 'c \<times> 'c \<Rightarrow> string \<Rightarrow> string \<Rightarrow> exc + 'img"
  save_encode :: "'img \<Rightarrow> string \<Rightarrow> exc + string"

text \<open>\<open>Image.open(image_path)\<close>: the file is read from the file system, then decoded.\<close>

definition Image_open ::
  "('img, 'det, 'th, 'f, 'c) library \<Rightarrow> filesystem \<Rightarrow> path \<Rightarrow> exc + 'img" where
  "Image_open lib fs image_path =
     (case lookup fs image_path of
        Some (File bytes) \<Rightarrow> image_open lib bytes
      | Some Dir \<Rightarrow> Inl (Exc ''Is a directory'')
      | Some Other \<Rightarrow> Inl (Exc ''Cannot read'')
      | None \<Rightarrow> Inl (Exc ''No such file or directory''))"

text \<open>
  \<open>annotated.save(out_file)\<close>: encode, then write.  When it raises, the model keeps
  the file system as it was before the call.
\<close>

definition save ::
  "('img, 'det, 'th, 'f, 'c) library \<Rightarrow> filesystem \<Rightarrow> 'img \<Rightarrow> path \<Rightarrow> exc + filesystem" where
  "save lib fs img out_file =
     (case save_encode lib img (name out_file) of
        Inl e \<Rightarrow> Inl e
      | Inr bytes \<Rightarrow> write_file fs out_file bytes)"

subsection \<open>detect\_on\_image\<close>

text \<open>The inner loop over the five points of one face (\<open>r = 3\<close>).\<close>

fun draw_points ::
  "('img, 'det, 'th, 'f, 'c::{plus,minus,numeral}) library \<Rightarrow> 'img \<Rightarrow> ('c \<times> 'c) list
     \<Rightarrow> exc + 'img" where
  "draw_points lib img [] = Inr img"
| "draw_points lib img ((x, y) # points) =
     (let r = 3 in
      case ellipse lib img (x - r, y - r, x + r, y + r) ''red'' ''red'' of
        Inl e \<Rightarrow> Inl e
      | Inr img' \<Rightarrow> draw_points lib img' points)"

text \<open>The loop \<open>for face in faces\<close>.\<close>

fun draw_faces ::
  "('img, 'det, 'th, 'f, 'c::{plus,minus,numeral}) library \<Rightarrow> 'img \<Rightarrow> 'c face list
     \<Rightarrow> exc + 'img" where
  "draw_faces lib img [] = Inr img"
| "draw_faces lib img (face # faces) =
     (let x1 = point_x (upper_left (bbox face));
          y1 = point_y (upper_left (bbox face));
          x2 = point_x (lower_right (bbox face));
          y2 = point_y (lower_right (bbox face))
      in case rectangle lib img [x1, y1, x2, y2] ''red'' 3 of
           Inl e \<Rightarrow> Inl e
         | Inr img1 \<Rightarrow>
             (let kps = keypoints face;
                  points = [(point_x (left_eye kps), point_y (left_eye kps)),
                            (point_x (right_eye kps), point_y (right_eye kps)),
                            (point_x (nose kps), point_y (nose kps)),
                            (point_x (left_mouth kps), point_y (left_mouth kps)),
                            (point_x (right_mouth kps), point_y (right_mouth kps))]
              in case draw_points lib img1 points of
                   Inl e \<Rightarrow> Inl e
                 | Inr img2 \<Rightarrow> draw_faces lib img2 faces))"

definition detect_on_image ::
  "('img, 'det, 'th, 'f, 'c::{plus,minus,numeral}) library \<Rightarrow> filesystem \<Rightarrow> 'det \<Rightarrow> path
     \<Rightarrow> 'th \<Rightarrow> exc + 'img" where
  "detect_on_image lib fs detector image_path threshold =
     (case Image_open lib fs image_path of
        Inl e \<Rightarrow> Inl e
      | Inr img0 \<Rightarrow>
          (case convert lib img0 ''RGB'' of
             Inl e \<Rightarrow> Inl e
           | Inr img \<Rightarrow>
               (case detect lib detector img threshold of
                  Inl e \<Rightarrow> Inl e
                | Inr faces \<Rightarrow>
                    (case Draw lib img of
                       Some e \<Rightarrow> Inl e
                     | None \<Rightarrow> draw_faces lib img faces))))"

subsection \<open>main\<close>

text \<open>
  The namespace \<open>parser.parse_args()\<close> returns.  Neither \<open>--in_dir\<close> nor \<open>--out_dir\<close> is
  declared with \<open>required=True\<close> or a default, so each is \<open>None\<close> when the flag is not
  given; \<open>--model_path\<close> and \<open>--threshold\<close> have defaults.  A command line argparse
  itself rejects never reaches the code below.
\<close>

record 'f namespace =
  in_dir :: "path option"
  out_dir :: "path option"
  model_path :: path
  threshold :: 'f

text \<open>What the run changes: the file system, and the lines printed to \<open>sys.stderr\<close>.\<close>

record state =
  disk :: filesystem
  stderr :: "string list"

text \<open>
  How \<open>main\<close> ends: it returns an integer, an exception leaves it, or \<open>parser.error\<close>
  exits (\<open>SystemExit\<close> with status 2).
\<close>

datatype outcome = Return int | Raise exc | SystemExit int

text \<open>
  The exit status of the process under \<open>raise SystemExit(main())\<close>: the returned value,
  the status of a \<open>SystemExit\<close>, 1 for an uncaught \<open>Exception\<close>.  What an escaping
  \<open>BaseException\<close> of another kind gives is not fixed here.
\<close>

definition exit_status :: "outcome \<Rightarrow> int option" where
  "exit_status r = (case r of
      Return n \<Rightarrow> Some n
    | SystemExit n \<Rightarrow> Some n
    | Raise (Exc _) \<Rightarrow> Some 1
    | Raise (NonExc _) \<Rightarrow> None)"

text \<open>\<open>str(path)\<close>.\<close>

fun join_parts :: "path \<Rightarrow> string" where
  "join_parts [] = []"
| "join_parts [n] = n"
| "join_parts (n # ns) = n @ ''/'' @ join_parts ns"

definition path_str :: "path \<Rightarrow> string" where
  "path_str p = (if p = [] then ''.'' else join_parts p)"

text \<open>
  The loop \<open>for image_path in image_paths\<close>.  The result is \<open>None\<close> when the loop runs to
  its end and \<open>Some e\<close> when \<open>e\<close> leaves it; the \<open>try\<close> covers \<open>detect_on_image\<close> only, and
  \<open>except Exception\<close> catches \<open>Exc\<close> only.
\<close>

fun process_images ::
  "('img, 'det, 'th, 'f, 'c::{plus,minus,numeral}) library \<Rightarrow> 'det \<Rightarrow> 'th \<Rightarrow> path
     \<Rightarrow> path list \<Rightarrow> state \<Rightarrow> exc option \<times> state" where
  "process_images lib detector th outd [] st = (None, st)"
| "process_images lib detector th outd (image_path # image_paths) st =
     (case detect_on_image lib (disk st) detector image_path th of
        Inl (Exc msg) \<Rightarrow>
          process_images lib detector th outd image_paths
            (st\<lparr>stderr := stderr st @ [''Failed on '' @ name image_path @ '': '' @ msg]\<rparr>)
      | Inl (NonExc msg) \<Rightarrow> (Some (NonExc msg), st)
      | Inr annotated \<Rightarrow>
          (let out_file = outd @ [name image_path] in
           case save lib (disk st) annotated out_file of
             Inl e \<Rightarrow> (Some e, st)
           | Inr fs' \<Rightarrow> process_images lib detector th outd image_paths (st\<lparr>disk := fs'\<rparr>)))"

text \<open>
  \<open>main\<close>, from the namespace on.  Calling \<open>is_dir\<close> or \<open>mkdir\<close> on \<open>None\<close> raises an
  \<open>AttributeError\<close> (its message is written here without the quotation marks Python puts
  around the names).  \<open>parser.error\<close> prints the usage and the message and exits with
  status 2; only the line with the message is kept.  The state that comes with a \<open>Raise\<close>
  is the state before the call that raised: directories a failing \<open>mkdir\<close> made on the
  way, or what a failing save left at its path, are not kept.
\<close>

definition main ::
  "('img, 'det, 'th, 'f, 'c::{plus,minus,numeral}) library \<Rightarrow> state \<Rightarrow> 'f namespace
     \<Rightarrow> outcome \<times> state" where
  "main lib st args =
     (case in_dir args of
        None \<Rightarrow> (Raise (Exc ''NoneType object has no attribute is_dir''), st)
      | Some ind \<Rightarrow>
          if \<not> is_dir (disk st) ind
          then (SystemExit 2,
                st\<lparr>stderr := stderr st @
                  [''error: in_dir does not exist or is not a directory: '' @ path_str ind]\<rparr>)
          else
            (case out_dir args of
               None \<Rightarrow> (Raise (Exc ''NoneType object has no attribute mkdir''), st)
             | Some outd \<Rightarrow>
                 (case mkdir (disk st) outd of
                    Inl e \<Rightarrow> (Raise e, st)
                  | Inr fs1 \<Rightarrow>
                      (case from_path lib fs1 (model_path args) of
                         Inl e \<Rightarrow> (Raise e, st\<lparr>disk := fs1\<rparr>)
                       | Inr detector \<Rightarrow>
                           (case Threshold lib (threshold args) of
                              Inl e \<Rightarrow> (Raise e, st\<lparr>disk := fs1\<rparr>)
                            | Inr th \<Rightarrow>
                                (case iter_images fs1 ind of
                                   Inl e \<Rightarrow> (Raise e, st\<lparr>disk := fs1\<rparr>)
                                 | Inr image_paths \<Rightarrow>
                                     if image_paths = []
                                     then (Return 1,
                                           st\<lparr>disk := fs1,
                                              stderr := stderr st @
                                                [''No images found in '' @ path_str ind]\<rparr>)
                                     else
                                       (case process_images lib detector th outd image_paths
                                               (st\<lparr>disk := fs1\<rparr>) of
                                          (Some e, st') \<Rightarrow> (Raise e, st')
                                        | (None, st') \<Rightarrow> (Return 0, st'))))))))"

subsection \<open>Auxiliary notions for stating the properties\<close>

text \<open>
  A file system is well formed when the parent of every entry is a directory.
\<close>

definition wf_fs :: "filesystem \<Rightarrow> bool" where
  "wf_fs fs = list_all (\<lambda>(p, n). is_dir fs (parent p)) fs"

text \<open>
  What a batch over \<open>ps\<close> is to leave behind, computed from the file system \<open>fs0\<close> it
  starts from: the files to write, in order, and the lines to print.
\<close>

definition outputs ::
  "('img, 'det, 'th, 'f, 'c::{plus,minus,numeral}) library \<Rightarrow> filesystem \<Rightarrow> 'det \<Rightarrow> 'th \<Rightarrow> path
     \<Rightarrow> path list \<Rightarrow> (path \<times> string) list" where
  "outputs lib fs0 detector th outd ps =
     concat (map (\<lambda>p. case detect_on_image lib fs0 detector p th of
                          Inl e \<Rightarrow> []
                        | Inr img \<Rightarrow>
                            (case save_encode lib img (name p) of
                               Inl e \<Rightarrow> []
                             | Inr bytes \<Rightarrow> [(outd @ [name p], bytes)])) ps)"

definition failures ::
  "('img, 'det, 'th, 'f, 'c::{plus,minus,numeral}) library \<Rightarrow> filesystem \<Rightarrow> 'det \<Rightarrow> 'th
     \<Rightarrow> path list \<Rightarrow> string list" where
  "failures lib fs0 detector th ps =
     concat (map (\<lambda>p. case detect_on_image lib fs0 detector p th of
                          Inl (Exc msg) \<Rightarrow> [''Failed on '' @ name p @ '': '' @ msg]
                        | Inl (NonExc msg) \<Rightarrow> []
                        | Inr img \<Rightarrow> []) ps)"

definition write_all :: "(path \<times> string) list \<Rightarrow> filesystem \<Rightarrow> filesystem" where
  "write_all w fs = fold (\<lambda>(f, bytes). AList.update f (File bytes)) w fs"

text \<open>
  The drawing calls of the annotation step as data, following the description of the
  annotator: per face one rectangle outline through the corners of the bounding box and
  five markers, each an ellipse in the square of half-width 3 around a keypoint.
\<close>

datatype 'c call =
  Rectangle "'c list" string nat
| Ellipse "'c \<times> 'c \<times> 'c \<times> 'c" string string

fun run_call :: "('img, 'det, 'th, 'f, 'c) library \<Rightarrow> 'img \<Rightarrow> 'c call \<Rightarrow> exc + 'img" where
  "run_call lib img (Rectangle xy outline width) = rectangle lib img xy outline width"
| "run_call lib img (Ellipse xy outline fill) = ellipse lib img xy outline fill"

fun run_calls :: "('img, 'det, 'th, 'f, 'c) library \<Rightarrow> 'img \<Rightarrow> 'c call list \<Rightarrow> exc + 'img" where
  "run_calls lib img [] = Inr img"
| "run_calls lib img (c # cs) =
     (case run_call lib img c of Inl e \<Rightarrow> Inl e | Inr img' \<Rightarrow> run_calls lib img' cs)"

definition marker :: "'c::{plus,minus,numeral} point \<Rightarrow> 'c call" where
  "marker k = Ellipse (point_x k - 3, point_y k - 3, point_x k + 3, point_y k + 3) ''red'' ''red''"

definition face_calls :: "'c::{plus,minus,numeral} face \<Rightarrow> 'c call list" where
  "face_calls face =
     [Rectangle [point_x (upper_left (bbox face)), point_y (upper_left (bbox face)),
                 point_x (lower_right (bbox face)), point_y (lower_right (bbox face))] ''red'' 3,
      marker (left_eye (keypoints face)), marker (right_eye (keypoints face)),
      marker (nose (keypoints face)),
      marker (left_mouth (keypoints face)), marker (right_mouth (keypoints face))]"

subsection \<open>A small instance\<close>

text \<open>
  A library over images that are strings: drawing appends a mark, the detector finds
  one face unless the image is \<open>nobody\<close> and raises on the image \<open>bad\<close>, a file holding
  \<open>corrupt\<close> does not decode, and the model loads when its file exists.
\<close>

definition pt :: "int \<Rightarrow> int \<Rightarrow> int point" where
  "pt a b = \<lparr>point_x = a, point_y = b\<rparr>"

definition ex_face :: "int face" where
  "ex_face = \<lparr>bbox = \<lparr>upper_left = pt 10 20, lower_right = pt 50 70\<rparr>,
               keypoints = \<lparr>left_eye = pt 20 30, right_eye = pt 40 30, nose = pt 30 40,
                            left_mouth = pt 22 55, right_mouth = pt 38 55\<rparr>\<rparr>"

definition ex_lib :: "(string, unit, int, int, int) library" where
  "ex_lib = \<lparr>
     image_open = (\<lambda>bytes. if bytes = ''corrupt''
                            then Inl (Exc ''cannot identify image file'') else Inr bytes),
     convert = (\<lambda>img mode. Inr img),
     from_path = (\<lambda>fs p. if is_file fs p then Inr () else Inl (Exc ''model not found'')),
     Threshold = (\<lambda>f. Inr f),
     detect = (\<lambda>det img th. if img = ''nobody'' then Inr []
                              else if img = ''bad'' then Inl (Exc ''inference failed'')
                              else Inr [ex_face]),
     Draw = (\<lambda>img. None),
     rectangle = (\<lambda>img xy outline width. Inr (img @ ''[]'')),
     ellipse = (\<lambda>img xy outline fill. Inr (img @ ''o'')),
     save_encode = (\<lambda>img n. Inr img)\<rparr>"

definition ex_fs :: filesystem where
  "ex_fs = [([''in''], Dir), ([''models''], Dir),
            ([''models'', ''scrfd.onnx''], File ''weights''),
            ([''in'', ''b.PNG''], File ''pixels''), ([''in'', ''a.jpg''], File ''bad''),
            ([''in'', ''notes.txt''], File ''text''), ([''in'', ''c.webp''], File ''nobody''),
            ([''in'', ''sub''], Dir), ([''in'', ''sub'', ''d.jpg''], File ''pixels'')]"

definition ex_args :: "int namespace" where
  "ex_args = \<lparr>in_dir = Some [''in''], out_dir = Some [''out'', ''faces''],
               model_path = [''models'', ''scrfd.onnx''], threshold = 40\<rparr>"

definition ex_state :: state where
  "ex_state = \<lparr>disk = ex_fs, stderr = []\<rparr>"

text \<open>The same file system once the output directory exists.\<close>

definition ex_fs_out :: filesystem where
  "ex_fs_out = ex_fs @ [([''out''], Dir), ([''out'', ''faces''], Dir)]"

text \<open>The same again with a directory where the output for \<open>b.PNG\<close> is to go.\<close>

definition ex_fs_blocked :: filesystem where
  "ex_fs_blocked = ex_fs_out @ [([''out'', ''faces'', ''b.PNG''], Dir)]"

text \<open>The same once more, with the directory where the output for \<open>c.webp\<close> is to go.\<close>

definition ex_fs_blocked_c :: filesystem where
  "ex_fs_blocked_c = ex_fs_out @ [([''out'', ''faces'', ''c.webp''], Dir)]"




section \<open>Properties\<close>

subsection \<open>File names and extensions\<close>

lemma rfind_Some:
  "rfind s c = Some i \<longleftrightarrow> (\<exists>a b. s = a @ c # b \<and> c \<notin> set b \<and> i = length a)"
proof
  assume "rfind s c = Some i"
  then have cs: "c \<in> set s" and i: "i = length s - 1 - length (takeWhile (\<lambda>x. x \<noteq> c) (rev s))"
    by (auto simp: rfind_def split: if_splits)
  define t where "t = takeWhile (\<lambda>x. x \<noteq> c) (rev s)"
  define d where "d = dropWhile (\<lambda>x. x \<noteq> c) (rev s)"
  from cs have "d \<noteq> []" by (simp add: d_def)
  then obtain y ys where d: "d = y # ys" by (cases d) auto
  have "y = c" using hd_dropWhile[of "\<lambda>x. x \<noteq> c" "rev s"] d cs by (auto simp: d_def)
  have "rev s = t @ d" by (simp add: t_def d_def)
  then have "rev (rev s) = rev (t @ d)" by simp
  then have s: "s = rev ys @ c # rev t" using d \<open>y = c\<close> by simp
  have c: "c \<notin> set (rev t)" unfolding t_def using set_takeWhileD by fastforce
  have "length s = length ys + 1 + length t" using arg_cong[OF s, of length] by simp
  then have "i = length (rev ys)" using i by (simp add: t_def)
  with c s show "\<exists>a b. s = a @ c # b \<and> c \<notin> set b \<and> i = length a" by blast
next
  assume "\<exists>a b. s = a @ c # b \<and> c \<notin> set b \<and> i = length a"
  then obtain a b where s: "s = a @ c # b" and b: "c \<notin> set b" and i: "i = length a" by blast
  have "takeWhile (\<lambda>x. x \<noteq> c) (rev s) = rev b"
    using s b by (simp add: takeWhile_append)
  then show "rfind s c = Some i" using s i by (simp add: rfind_def)
qed

lemma rfind_None: "rfind s c = None \<longleftrightarrow> c \<notin> set s"
  by (simp add: rfind_def)

lemma suffix_eq_Cons:
  "suffix p = x # e \<longleftrightarrow>
     x = CHR ''.'' \<and> e \<noteq> [] \<and> CHR ''.'' \<notin> set e \<and> (\<exists>stem. stem \<noteq> [] \<and> name p = stem @ CHR ''.'' # e)"
proof
  assume a: "suffix p = x # e"
  then obtain i where r: "rfind (name p) (CHR ''.'') = Some i" and i: "0 < i" "i + 1 < length (name p)"
    and d: "drop i (name p) = x # e"
    by (auto simp: suffix_def split: option.splits if_splits)
  from r obtain a b where n: "name p = a @ CHR ''.'' # b" and b: "CHR ''.'' \<notin> set b" and ia: "i = length a"
    unfolding rfind_Some by blast
  from d n ia have "x # e = CHR ''.'' # b" by simp
  with n b i ia show "x = CHR ''.'' \<and> e \<noteq> [] \<and> CHR ''.'' \<notin> set e \<and> (\<exists>stem. stem \<noteq> [] \<and> name p = stem @ CHR ''.'' # e)"
    by auto
next
  assume "x = CHR ''.'' \<and> e \<noteq> [] \<and> CHR ''.'' \<notin> set e \<and> (\<exists>stem. stem \<noteq> [] \<and> name p = stem @ CHR ''.'' # e)"
  then obtain stem where x: "x = CHR ''.''" and e: "e \<noteq> []" "CHR ''.'' \<notin> set e" and st: "stem \<noteq> []"
    and n: "name p = stem @ CHR ''.'' # e" by blast
  have "rfind (name p) (CHR ''.'') = Some (length stem)" unfolding rfind_Some using n e by blast
  then show "suffix p = x # e" using n e st x by (simp add: suffix_def)
qed

lemma lower_char_dot: "lower_char c = CHR ''.'' \<longleftrightarrow> c = CHR ''.''"
proof
  assume a: "lower_char c = CHR ''.''"
  show "c = CHR ''.''"
  proof (cases "65 \<le> (of_char c :: nat) \<and> (of_char c :: nat) \<le> 90")
    case True
    then have "lower_char c = char_of ((of_char c :: nat) + 32)" by (simp add: lower_char_def Let_def)
    with a have "(of_char (char_of ((of_char c :: nat) + 32)) :: nat) = of_char (CHR ''.'')" by simp
    then have "((of_char c :: nat) + 32) mod 256 = 46" by (simp add: of_char_of)
    with True show ?thesis by simp
  next
    case False
    then show ?thesis using a by (auto simp: lower_char_def Let_def split: if_splits)
  qed
next
  assume "c = CHR ''.''" then show "lower_char c = CHR ''.''" by (simp add: lower_char_def)
qed

lemma dot_in_lower: "CHR ''.'' \<in> set (lower e) \<longleftrightarrow> CHR ''.'' \<in> set e"
  unfolding lower_def set_map image_iff by (metis lower_char_dot)

lemma lower_Cons: "lower (x # e) = lower_char x # lower e"
  by (simp add: lower_def)

lemma lower_suffix_in_exts:
  "lower (suffix p) \<in> exts \<longleftrightarrow>
     (\<exists>stem e. stem \<noteq> [] \<and> name p = stem @ CHR ''.'' # e \<and>
        lower e \<in> {''jpg'', ''jpeg'', ''png'', ''bmp'', ''webp'', ''tif'', ''tiff''})"
  (is "?L \<longleftrightarrow> ?R")
proof
  assume l: ?L
  then have "suffix p \<noteq> []" by (auto simp: exts_def lower_def)
  then obtain x e where s: "suffix p = x # e" by (cases "suffix p") auto
  then have x: "x = CHR ''.''" and st: "\<exists>stem. stem \<noteq> [] \<and> name p = stem @ CHR ''.'' # e"
    unfolding suffix_eq_Cons by blast+
  from l s x have "lower e \<in> {''jpg'', ''jpeg'', ''png'', ''bmp'', ''webp'', ''tif'', ''tiff''}"
    by (simp add: exts_def lower_Cons lower_char_dot)
  with st show ?R by blast
next
  assume ?R
  then obtain stem e where st: "stem \<noteq> []" and n: "name p = stem @ CHR ''.'' # e"
    and e: "lower e \<in> {''jpg'', ''jpeg'', ''png'', ''bmp'', ''webp'', ''tif'', ''tiff''}" by blast
  from e have "CHR ''.'' \<notin> set (lower e)" by auto
  then have nd: "CHR ''.'' \<notin> set e" by (simp add: dot_in_lower)
  from e have ne: "e \<noteq> []" by (auto simp: lower_def)
  have "suffix p = CHR ''.'' # e" unfolding suffix_eq_Cons using st n nd ne by blast
  then show ?L using e by (auto simp: exts_def lower_Cons lower_char_dot)
qed

lemma append_single_le: "(d @ [a] :: 'a::linorder list list) \<le> d @ [b] \<longleftrightarrow> a \<le> b"
  by (induction d) auto

lemma child_decomp: "p \<noteq> [] \<Longrightarrow> parent p = d \<Longrightarrow> p = d @ [name p]"
  by (auto simp: parent_def name_def)

lemma child_iff: "p \<noteq> [] \<and> parent p = d \<longleftrightarrow> (\<exists>n. p = d @ [n])"
  by (auto simp: parent_def name_def intro: append_butlast_last_id[symmetric])

lemma name_child: "name (d @ [n]) = n"
  by (simp add: name_def)

lemma is_file_in_fs: "is_file fs p \<Longrightarrow> p \<noteq> [] \<Longrightarrow> p \<in> fst ` set fs"
  by (auto simp: is_file_def lookup_def split: option.splits node.splits dest: map_of_SomeD intro: rev_image_eqI)

lemma iterdir_Inr:
  "is_dir fs d \<Longrightarrow> iterdir fs d = Inr (filter (\<lambda>p. p \<noteq> [] \<and> parent p = d) (remdups (map fst fs)))"
  by (simp add: iterdir_def)


subsection \<open>The listing\<close>

lemma iter_images_props:
  assumes "is_dir fs d"
  shows "\<exists>ps. iter_images fs d = Inr ps \<and>
           set ps = {p. (\<exists>n. p = d @ [n]) \<and> is_file fs p \<and> lower (suffix p) \<in> exts} \<and>
           sorted ps \<and> distinct ps"
proof -
  define es where "es = filter (\<lambda>p. p \<noteq> [] \<and> parent p = d) (remdups (map fst fs))"
  define ps where "ps = filter (\<lambda>path. is_file fs path \<and> lower (suffix path) \<in> exts) (sort es)"
  have run: "iter_images fs d = Inr ps"
    using assms by (simp add: iter_images_def iterdir_Inr ps_def es_def)
  have set_es: "set es = {p. p \<in> fst ` set fs \<and> (\<exists>n. p = d @ [n])}"
    by (auto simp: es_def child_iff[symmetric])
  have "set ps = {p. p \<in> set es \<and> is_file fs p \<and> lower (suffix p) \<in> exts}"
    by (auto simp: ps_def)
  also have "\<dots> = {p. (\<exists>n. p = d @ [n]) \<and> is_file fs p \<and> lower (suffix p) \<in> exts}"
    unfolding set_es using is_file_in_fs by blast
  finally have set_ps:
    "set ps = {p. (\<exists>n. p = d @ [n]) \<and> is_file fs p \<and> lower (suffix p) \<in> exts}" .
  have dist: "distinct ps" by (simp add: ps_def es_def)
  have "sorted ps" unfolding ps_def by (rule sorted_wrt_filter) simp
  with run set_ps dist show ?thesis by blast
qed

lemma children_sorted_names:
  assumes "sorted ps" and "\<And>p. p \<in> set ps \<Longrightarrow> p = d @ [name p]"
  shows "sorted (map name ps)"
proof -
  from assms(1) have "sorted_wrt (\<lambda>p q. name p \<le> name q) ps"
  proof (rule sorted_wrt_mono_rel[rotated])
    fix p q assume "p \<in> set ps" "q \<in> set ps" "p \<le> q"
    then have "d @ [name p] \<le> d @ [name q]" using assms(2) by metis
    then show "name p \<le> name q" by (simp only: append_single_le)
  qed
  then show ?thesis by (simp add: sorted_map)
qed

lemma children_distinct_names:
  assumes "distinct ps" and "\<And>p. p \<in> set ps \<Longrightarrow> p = d @ [name p]"
  shows "distinct (map name ps)"
proof -
  have "inj_on name (set ps)"
    by (rule inj_onI) (metis assms(2))
  then show ?thesis using assms(1) by (simp add: distinct_map)
qed


subsection \<open>The file system operations\<close>

declare mkdir.simps [simp del]

lemma lookup_update:
  "p \<noteq> [] \<Longrightarrow> lookup (AList.update p n fs) q = (if q = p then Some n else lookup fs q)"
  by (simp add: lookup_def update_conv')

lemma lookup_None_nonempty: "lookup fs p = None \<Longrightarrow> p \<noteq> []"
  by (auto simp: lookup_def)

lemma is_dir_root [simp]: "is_dir fs []"
  by (simp add: is_dir_def lookup_def)

lemma wf_parent: "wf_fs fs \<Longrightarrow> lookup fs p = Some n \<Longrightarrow> is_dir fs (parent p)"
proof (cases "p = []")
  case True then show ?thesis by (simp add: parent_def)
next
  case False
  assume w: "wf_fs fs" and l: "lookup fs p = Some n"
  from l False have "(p, n) \<in> set fs" by (auto simp: lookup_def dest: map_of_SomeD)
  with w show ?thesis by (auto simp: wf_fs_def list_all_iff)
qed

lemma wf_ancestors:
  "wf_fs fs \<Longrightarrow> lookup fs p = Some n \<Longrightarrow> k < length p \<Longrightarrow> is_dir fs (take k p)"
proof (induction p arbitrary: n rule: rev_induct)
  case Nil then show ?case by simp
next
  case (snoc x xs)
  have d: "is_dir fs xs" using wf_parent[OF snoc.prems(1,2)] by (simp add: parent_def)
  show ?case
  proof (cases "k < length xs")
    case True
    then have "is_dir fs (take k xs)" using snoc.IH[OF snoc.prems(1)] d by (simp add: is_dir_def)
    then show ?thesis using True by simp
  next
    case False
    then have "take k (xs @ [x]) = xs" using snoc.prems(3) by simp
    then show ?thesis using d by simp
  qed
qed

lemma take_parent_cases:
  "take k p = p \<or> (p \<noteq> [] \<and> take k p = take k (parent p))"
  by (cases "k \<ge> length p") (auto simp: parent_def take_butlast)

lemma mkdir_is_dir: "mkdir fs p = Inr fs1 \<Longrightarrow> is_dir fs1 p"
proof (induction fs p arbitrary: fs1 rule: mkdir.induct)
  case (1 fs p)
  then show ?case
    by (subst (asm) (2) mkdir.simps)
       (auto simp: is_dir_def lookup_update dest: lookup_None_nonempty split: option.splits node.splits sum.splits)
qed

lemma mkdir_lookup:
  "mkdir fs p = Inr fs1 \<Longrightarrow>
     lookup fs1 q = lookup fs q \<or> (lookup fs q = None \<and> lookup fs1 q = Some Dir \<and> (\<exists>k. q = take k p))"
proof (induction fs p arbitrary: fs1 rule: mkdir.induct)
  case (1 fs p)
  have self: "\<exists>k. p = take k p" by (rule exI[of _ "length p"]) simp
  show ?case
  proof (cases "lookup fs p")
    case (Some n)
    with "1.prems" have "fs1 = fs"
      by (auto simp: mkdir.simps[of fs p] split: node.splits)
    then show ?thesis by simp
  next
    case None
    then have ne: "p \<noteq> []" by (rule lookup_None_nonempty)
    show ?thesis
    proof (cases "lookup fs (parent p)")
      case (Some n)
      with None "1.prems" have "fs1 = AList.update p Dir fs"
        by (auto simp: mkdir.simps[of fs p] split: node.splits)
      then show ?thesis using ne None self by (auto simp: lookup_update)
    next
      case pn: None
      with None "1.prems" obtain fs' where m: "mkdir fs (parent p) = Inr fs'"
        and f: "fs1 = AList.update p Dir fs'"
        by (auto simp: mkdir.simps[of fs p] split: sum.splits)
      have ih: "lookup fs' q = lookup fs q \<or> (lookup fs q = None \<and> lookup fs' q = Some Dir \<and> (\<exists>k. q = take k (parent p)))"
        using "1.IH"[OF None pn m] .
      have tk: "\<exists>j. take k (parent p) = take j p" for k
        unfolding parent_def by (metis butlast_conv_take take_take)
      show ?thesis
      proof (cases "q = p")
        case True
        then show ?thesis using f ne None self by (auto simp: lookup_update)
      next
        case False
        then have "lookup fs1 q = lookup fs' q" using f ne by (simp add: lookup_update)
        then show ?thesis using ih tk by metis
      qed
    qed
  qed
qed

lemma mkdir_existing: "is_dir fs p \<Longrightarrow> mkdir fs p = Inr fs"
  by (simp add: mkdir.simps[of fs p] is_dir_def)

lemma mkdir_ancestors:
  "wf_fs fs \<Longrightarrow> mkdir fs p = Inr fs1 \<Longrightarrow> is_dir fs1 (take k p)"
proof (induction fs p arbitrary: fs1 rule: mkdir.induct)
  case (1 fs p)
  note w = "1.prems"(1) and m = "1.prems"(2)
  have selfdir: "is_dir fs1 p" using m by (rule mkdir_is_dir)
  show ?case
  proof (cases "k < length p")
    case False then show ?thesis using selfdir by simp
  next
    case k: True
    show ?thesis
    proof (cases "lookup fs p")
      case (Some n)
      with m have "fs1 = fs" by (auto simp: mkdir.simps[of fs p] split: node.splits)
      then show ?thesis using wf_ancestors[OF w Some k] by simp
    next
      case None
      then have ne: "p \<noteq> []" by (rule lookup_None_nonempty)
      have tp: "take k p = take k (parent p)" using k by (simp add: parent_def take_butlast)
      have neq: "take k p \<noteq> p" using k by (metis length_take min.absorb4 nat_neq_iff)
      show ?thesis
      proof (cases "lookup fs (parent p)")
        case (Some n)
        with None m have n: "n = Dir" and f: "fs1 = AList.update p Dir fs"
          by (auto simp: mkdir.simps[of fs p] split: node.splits)
        have "is_dir fs (take k (parent p))"
        proof (cases "k < length (parent p)")
          case True then show ?thesis using wf_ancestors[OF w Some] by simp
        next
          case False then show ?thesis using Some n by (simp add: is_dir_def)
        qed
        then show ?thesis using f ne neq tp by (simp add: is_dir_def lookup_update)
      next
        case pn: None
        with None m obtain fs' where m': "mkdir fs (parent p) = Inr fs'"
          and f: "fs1 = AList.update p Dir fs'"
          by (auto simp: mkdir.simps[of fs p] split: sum.splits)
        have "is_dir fs' (take k (parent p))" using "1.IH"[OF None pn w m'] .
        then show ?thesis using f ne neq tp by (simp add: is_dir_def lookup_update)
      qed
    qed
  qed
qed

lemma mkdir_succeeds:
  "(\<And>k. lookup fs (take k p) = None \<or> lookup fs (take k p) = Some Dir) \<Longrightarrow> \<exists>fs1. mkdir fs p = Inr fs1"
proof (induction fs p rule: mkdir.induct)
  case (1 fs p)
  have self: "lookup fs p = None \<or> lookup fs p = Some Dir" using "1.prems"[of "length p"] by simp
  have par: "lookup fs (parent p) = None \<or> lookup fs (parent p) = Some Dir"
    using "1.prems"[of "length p - 1"] by (simp add: parent_def butlast_conv_take)
  show ?case
  proof (cases "lookup fs p")
    case (Some n) then show ?thesis using self by (simp add: mkdir.simps[of fs p])
  next
    case None
    show ?thesis
    proof (cases "lookup fs (parent p)")
      case (Some n) then show ?thesis using par None by (simp add: mkdir.simps[of fs p])
    next
      case pn: None
      have "\<And>k. lookup fs (take k (parent p)) = None \<or> lookup fs (take k (parent p)) = Some Dir"
      proof -
        fix k
        have "take k (parent p) = take (min k (length p - 1)) p"
          by (simp add: parent_def butlast_conv_take min.commute)
        then show "lookup fs (take k (parent p)) = None \<or> lookup fs (take k (parent p)) = Some Dir"
          using "1.prems"[of "min k (length p - 1)"] by simp
      qed
      then obtain fs' where "mkdir fs (parent p) = Inr fs'" using "1.IH"[OF None pn] by blast
      then show ?thesis using None pn by (simp add: mkdir.simps[of fs p])
    qed
  qed
qed

subsection \<open>The loop over the images\<close>

lemma detect_on_image_cong:
  "lookup fs p = lookup fs' p \<Longrightarrow>
     detect_on_image lib fs det p th = detect_on_image lib fs' det p th"
  by (simp add: detect_on_image_def Image_open_def)

lemma write_file_Inr:
  "write_file fs f b = Inr fs' \<longleftrightarrow>
     f \<noteq> [] \<and> \<not> is_dir fs f \<and> is_dir fs (parent f) \<and> lookup fs f \<noteq> Some Other \<and>
     fs' = AList.update f (File b) fs"
  by (auto simp: write_file_def)

lemma save_Inr:
  "save lib fs img f = Inr fs' \<longleftrightarrow>
     (\<exists>b. save_encode lib img (name f) = Inr b \<and> write_file fs f b = Inr fs')"
  by (auto simp: save_def split: sum.splits)

lemma write_file_cong:
  "lookup fs f = lookup fs' f \<Longrightarrow> lookup fs (parent f) = lookup fs' (parent f) \<Longrightarrow>
     (\<exists>x. write_file fs f b = Inr x) \<longleftrightarrow> (\<exists>x. write_file fs' f b = Inr x)"
  by (simp add: write_file_Inr is_dir_def)

lemma process_images_append:
  "process_images lib det th outd (xs @ ys) st =
     (case process_images lib det th outd xs st of
        (None, st1) \<Rightarrow> process_images lib det th outd ys st1
      | (Some e, st1) \<Rightarrow> (Some e, st1))"
proof (induction xs arbitrary: st)
  case Nil then show ?case by simp
next
  case (Cons x xs)
  show ?case
    by (simp add: Cons.IH Let_def split: sum.splits exc.splits)
qed

lemma write_all_Cons: "write_all ((f, b) # w) fs = write_all w (AList.update f (File b) fs)"
  by (simp add: write_all_def)

lemma write_all_Nil: "write_all [] fs = fs"
  by (simp add: write_all_def)

lemma outputs_Cons:
  "outputs lib fs0 det th outd (p # ps) =
     (case detect_on_image lib fs0 det p th of
        Inl e \<Rightarrow> []
      | Inr img \<Rightarrow> (case save_encode lib img (name p) of
                      Inl e \<Rightarrow> [] | Inr bytes \<Rightarrow> [(outd @ [name p], bytes)]))
     @ outputs lib fs0 det th outd ps"
  by (simp add: outputs_def)

lemma failures_Cons:
  "failures lib fs0 det th (p # ps) =
     (case detect_on_image lib fs0 det p th of
        Inl (Exc msg) \<Rightarrow> [''Failed on '' @ name p @ '': '' @ msg]
      | Inl (NonExc msg) \<Rightarrow> []
      | Inr img \<Rightarrow> [])
     @ failures lib fs0 det th ps"
  by (simp add: failures_def)

lemma process_images_closed_form:
  assumes "distinct ps"
      and "\<And>p q. p \<in> set ps \<Longrightarrow> q \<in> set ps \<Longrightarrow> outd @ [name q] = p \<Longrightarrow> q = p"
      and "\<And>p. p \<in> set ps \<Longrightarrow> lookup (disk st) p = lookup fs0 p"
      and "process_images lib det th outd ps st = (None, st')"
  shows "st' = st\<lparr>disk := write_all (outputs lib fs0 det th outd ps) (disk st),
                  stderr := stderr st @ failures lib fs0 det th ps\<rparr>"
  using assms
proof (induction ps arbitrary: st)
  case Nil
  then show ?case by (simp add: outputs_def failures_def write_all_def)
next
  case (Cons p ps)
  have dist: "distinct ps" and pn: "p \<notin> set ps" using Cons.prems(1) by auto
  have nc: "\<And>a b. a \<in> set ps \<Longrightarrow> b \<in> set ps \<Longrightarrow> outd @ [name b] = a \<Longrightarrow> b = a"
    using Cons.prems(2) by auto
  have D: "detect_on_image lib (disk st) det p th = detect_on_image lib fs0 det p th"
    by (rule detect_on_image_cong) (simp add: Cons.prems(3))
  show ?case
  proof (cases "detect_on_image lib fs0 det p th")
    case (Inl e)
    show ?thesis
    proof (cases e)
      case (Exc msg)
      let ?st1 = "st\<lparr>stderr := stderr st @ [''Failed on '' @ name p @ '': '' @ msg]\<rparr>"
      have run: "process_images lib det th outd ps ?st1 = (None, st')"
        using Cons.prems(4) D Inl Exc by simp
      have agree: "\<And>q. q \<in> set ps \<Longrightarrow> lookup (disk ?st1) q = lookup fs0 q"
        using Cons.prems(3) by simp
      have "st' = ?st1\<lparr>disk := write_all (outputs lib fs0 det th outd ps) (disk ?st1),
                  stderr := stderr ?st1 @ failures lib fs0 det th ps\<rparr>"
        by (rule Cons.IH[OF dist nc agree run])
      then show ?thesis using Inl Exc by (simp add: outputs_Cons failures_Cons)
    next
      case (NonExc msg)
      then show ?thesis using Cons.prems(4) D Inl by simp
    qed
  next
    case (Inr img)
    from Cons.prems(4) D Inr obtain fs' where sv: "save lib (disk st) img (outd @ [name p]) = Inr fs'"
      and run: "process_images lib det th outd ps (st\<lparr>disk := fs'\<rparr>) = (None, st')"
      by (auto simp: Let_def split: sum.splits)
    from sv obtain b where enc: "save_encode lib img (name p) = Inr b"
      and f: "fs' = AList.update (outd @ [name p]) (File b) (disk st)"
      by (auto simp: save_Inr write_file_Inr name_child)
    have agree: "\<And>q. q \<in> set ps \<Longrightarrow> lookup (disk (st\<lparr>disk := fs'\<rparr>)) q = lookup fs0 q"
    proof -
      fix q assume q: "q \<in> set ps"
      have "q \<noteq> outd @ [name p]"
      proof
        assume "q = outd @ [name p]"
        then have "p = q" using Cons.prems(2)[of q p] q by (metis list.set_intros)
        then show False using pn q by blast
      qed
      then show "lookup (disk (st\<lparr>disk := fs'\<rparr>)) q = lookup fs0 q"
        using f Cons.prems(3)[of q] q by (simp add: lookup_update)
    qed
    have "st' = (st\<lparr>disk := fs'\<rparr>)\<lparr>disk := write_all (outputs lib fs0 det th outd ps) (disk (st\<lparr>disk := fs'\<rparr>)),
                  stderr := stderr (st\<lparr>disk := fs'\<rparr>) @ failures lib fs0 det th ps\<rparr>"
      by (rule Cons.IH[OF dist nc agree run])
    then show ?thesis using Inr enc f by (simp add: outputs_Cons failures_Cons write_all_Cons)
  qed
qed

lemma process_images_completes:
  assumes "distinct (map name ps)"
      and "\<And>p q. p \<in> set ps \<Longrightarrow> q \<in> set ps \<Longrightarrow> outd @ [name q] = p \<Longrightarrow> q = p"
      and "\<And>p. p \<in> set ps \<Longrightarrow> lookup (disk st) p = lookup fs0 p"
      and "\<And>p. p \<in> set ps \<Longrightarrow> lookup (disk st) (outd @ [name p]) = lookup fs0 (outd @ [name p])"
      and "lookup (disk st) outd = lookup fs0 outd"
      and "\<And>p. p \<in> set ps \<Longrightarrow>
             (\<exists>msg. detect_on_image lib fs0 det p th = Inl (Exc msg)) \<or>
             (\<exists>img fs'. detect_on_image lib fs0 det p th = Inr img \<and>
                         save lib fs0 img (outd @ [name p]) = Inr fs')"
  shows "\<exists>st'. process_images lib det th outd ps st = (None, st')"
  using assms
proof (induction ps arbitrary: st)
  case Nil
  then show ?case by simp
next
  case (Cons p ps)
  have dn: "distinct (map name ps)" and pn: "name p \<notin> name ` set ps" using Cons.prems(1) by auto
  have pnot: "p \<notin> set ps" using pn by blast
  have nc: "\<And>a b. a \<in> set ps \<Longrightarrow> b \<in> set ps \<Longrightarrow> outd @ [name b] = a \<Longrightarrow> b = a"
  proof -
    fix a b assume a: "a \<in> set ps" and b: "b \<in> set ps" and e: "outd @ [name b] = a"
    have "a \<in> set (p # ps)" "b \<in> set (p # ps)" using a b by simp_all
    then show "b = a" using e by (rule Cons.prems(2))
  qed
  have ok: "\<And>q. q \<in> set ps \<Longrightarrow>
             (\<exists>msg. detect_on_image lib fs0 det q th = Inl (Exc msg)) \<or>
             (\<exists>img fs'. detect_on_image lib fs0 det q th = Inr img \<and>
                         save lib fs0 img (outd @ [name q]) = Inr fs')"
  proof -
    fix q assume "q \<in> set ps"
    then have "q \<in> set (p # ps)" by simp
    then show "(\<exists>msg. detect_on_image lib fs0 det q th = Inl (Exc msg)) \<or>
             (\<exists>img fs'. detect_on_image lib fs0 det q th = Inr img \<and>
                         save lib fs0 img (outd @ [name q]) = Inr fs')"
      by (rule Cons.prems(6))
  qed
  have D: "detect_on_image lib (disk st) det p th = detect_on_image lib fs0 det p th"
    by (rule detect_on_image_cong) (simp add: Cons.prems(3))
  from Cons.prems(6)[of p]
  consider (fail) msg where "detect_on_image lib fs0 det p th = Inl (Exc msg)"
    | (good) img fs' where "detect_on_image lib fs0 det p th = Inr img"
        "save lib fs0 img (outd @ [name p]) = Inr fs'"
    by auto
  then show ?case
  proof cases
    case fail
    let ?st1 = "st\<lparr>stderr := stderr st @ [''Failed on '' @ name p @ '': '' @ msg]\<rparr>"
    have a1: "\<And>q. q \<in> set ps \<Longrightarrow> lookup (disk ?st1) q = lookup fs0 q"
      using Cons.prems(3) by simp
    have a2: "\<And>q. q \<in> set ps \<Longrightarrow> lookup (disk ?st1) (outd @ [name q]) = lookup fs0 (outd @ [name q])"
      using Cons.prems(4) by simp
    have a3: "lookup (disk ?st1) outd = lookup fs0 outd" using Cons.prems(5) by simp
    have "\<exists>st'. process_images lib det th outd ps ?st1 = (None, st')"
      by (rule Cons.IH[OF dn nc a1 a2 a3 ok])
    then show ?thesis using D fail by simp
  next
    case good
    let ?f = "outd @ [name p]"
    from good(2) obtain b where enc: "save_encode lib img (name p) = Inr b"
      and w0: "\<not> is_dir fs0 ?f" "is_dir fs0 outd" "lookup fs0 ?f \<noteq> Some Other"
      by (auto simp: save_Inr write_file_Inr name_child parent_def)
    have w: "\<not> is_dir (disk st) ?f" "is_dir (disk st) outd" "lookup (disk st) ?f \<noteq> Some Other"
      using w0 Cons.prems(4)[of p] Cons.prems(5) by (simp_all add: is_dir_def)
    define fs1 where "fs1 = AList.update ?f (File b) (disk st)"
    have sv: "save lib (disk st) img ?f = Inr fs1"
      using enc w by (simp add: save_Inr write_file_Inr name_child parent_def fs1_def)
    let ?st1 = "st\<lparr>disk := fs1\<rparr>"
    have a1: "\<And>q. q \<in> set ps \<Longrightarrow> lookup (disk ?st1) q = lookup fs0 q"
    proof -
      fix q assume q: "q \<in> set ps"
      have "q \<noteq> ?f"
      proof
        assume "q = ?f"
        then have "p = q" using Cons.prems(2)[of q p] q by (metis list.set_intros)
        then show False using pnot q by blast
      qed
      then show "lookup (disk ?st1) q = lookup fs0 q"
        using Cons.prems(3)[of q] q by (simp add: lookup_update fs1_def)
    qed
    have a2: "\<And>q. q \<in> set ps \<Longrightarrow> lookup (disk ?st1) (outd @ [name q]) = lookup fs0 (outd @ [name q])"
    proof -
      fix q assume q: "q \<in> set ps"
      have "name q \<noteq> name p" using pn q by (metis imageI)
      then show "lookup (disk ?st1) (outd @ [name q]) = lookup fs0 (outd @ [name q])"
        using Cons.prems(4)[of q] q by (simp add: lookup_update fs1_def)
    qed
    have "outd \<noteq> ?f" by simp
    then have a3: "lookup (disk ?st1) outd = lookup fs0 outd"
      using Cons.prems(5) by (simp add: lookup_update fs1_def)
    have "\<exists>st'. process_images lib det th outd ps ?st1 = (None, st')"
      by (rule Cons.IH[OF dn nc a1 a2 a3 ok])
    then show ?thesis using D good(1) sv by (simp add: Let_def)
  qed
qed

lemma lookup_write_all_other:
  "(\<And>g b. (g, b) \<in> set w \<Longrightarrow> g \<noteq> [] \<and> g \<noteq> f) \<Longrightarrow> lookup (write_all w fs) f = lookup fs f"
proof (induction w arbitrary: fs)
  case Nil then show ?case by (simp add: write_all_Nil)
next
  case (Cons a w)
  obtain g b where a: "a = (g, b)" by (cases a)
  have g: "g \<noteq> []" "g \<noteq> f" using Cons.prems[of g b] a by auto
  have "lookup (write_all w (AList.update g (File b) fs)) f = lookup (AList.update g (File b) fs) f"
    by (rule Cons.IH) (use Cons.prems in auto)
  then show ?case using a g by (simp add: write_all_Cons lookup_update)
qed

lemma lookup_write_all_member:
  "distinct (map fst w) \<Longrightarrow> (f, b) \<in> set w \<Longrightarrow> (\<And>g c. (g, c) \<in> set w \<Longrightarrow> g \<noteq> []) \<Longrightarrow>
     lookup (write_all w fs) f = Some (File b)"
proof (induction w arbitrary: fs)
  case Nil then show ?case by simp
next
  case (Cons a w)
  obtain g c where a: "a = (g, c)" by (cases a)
  have gne: "g \<noteq> []" using Cons.prems(3)[of g c] a by simp
  show ?case
  proof (cases "(f, b) \<in> set w")
    case True
    have "lookup (write_all w (AList.update g (File c) fs)) f = Some (File b)"
      by (rule Cons.IH) (use Cons.prems True in auto)
    then show ?thesis using a by (simp add: write_all_Cons)
  next
    case False
    then have fg: "g = f" "c = b" using Cons.prems(2) a by auto
    have notin: "\<And>h d. (h, d) \<in> set w \<Longrightarrow> h \<noteq> [] \<and> h \<noteq> f"
    proof -
      fix h d assume hd: "(h, d) \<in> set w"
      then have "h \<in> fst ` set w" by (metis fst_conv image_eqI)
      moreover have "f \<notin> fst ` set w" using Cons.prems(1) a fg by simp
      ultimately have "h \<noteq> f" by blast
      moreover have "h \<noteq> []" using Cons.prems(3)[of h d] hd by simp
      ultimately show "h \<noteq> [] \<and> h \<noteq> f" by simp
    qed
    have "lookup (write_all w (AList.update g (File c) fs)) f = lookup (AList.update g (File c) fs) f"
      by (rule lookup_write_all_other) (rule notin)
    then show ?thesis using a fg gne by (simp add: write_all_Cons lookup_update)
  qed
qed

lemma outputs_Nil: "outputs lib fs0 det th outd [] = []"
  by (simp add: outputs_def)

lemma failures_Nil: "failures lib fs0 det th [] = []"
  by (simp add: failures_def)

lemma outputs_set:
  "(f, b) \<in> set (outputs lib fs0 det th outd ps) \<longleftrightarrow>
     (\<exists>p img. p \<in> set ps \<and> detect_on_image lib fs0 det p th = Inr img \<and>
               save_encode lib img (name p) = Inr b \<and> f = outd @ [name p])"
proof (induction ps)
  case Nil then show ?case by (simp add: outputs_Nil)
next
  case (Cons p ps)
  show ?case
    unfolding outputs_Cons set_append Un_iff Cons.IH
    by (cases "detect_on_image lib fs0 det p th")
       (auto split: sum.splits)
qed

lemma outputs_keys_nonempty: "(g, c) \<in> set (outputs lib fs0 det th outd ps) \<Longrightarrow> g \<noteq> []"
  by (auto simp: outputs_set)

lemma outputs_distinct:
  "distinct (map name ps) \<Longrightarrow> distinct (map fst (outputs lib fs0 det th outd ps))"
proof (induction ps)
  case Nil then show ?case by (simp add: outputs_Nil)
next
  case (Cons p ps)
  have ih: "distinct (map fst (outputs lib fs0 det th outd ps))" using Cons by simp
  have pn: "name p \<notin> name ` set ps" using Cons.prems by simp
  have notin: "outd @ [name p] \<notin> fst ` set (outputs lib fs0 det th outd ps)"
  proof
    assume "outd @ [name p] \<in> fst ` set (outputs lib fs0 det th outd ps)"
    then obtain b where "(outd @ [name p], b) \<in> set (outputs lib fs0 det th outd ps)" by auto
    then obtain q where "q \<in> set ps" "outd @ [name p] = outd @ [name q]"
      unfolding outputs_set by blast
    then show False using pn by auto
  qed
  show ?case
    unfolding outputs_Cons using ih notin
    by (auto split: sum.splits)
qed

lemma process_images_prefix:
  "process_images lib det th outd ps st = (r, st') \<Longrightarrow>
     \<exists>k. k \<le> length ps \<and> process_images lib det th outd (take k ps) st = (None, st') \<and>
         (r = None \<longrightarrow> k = length ps)"
proof (induction ps arbitrary: st)
  case Nil
  then show ?case by simp
next
  case (Cons p ps)
  show ?case
  proof (cases "detect_on_image lib (disk st) det p th")
    case (Inl e)
    show ?thesis
    proof (cases e)
      case (Exc msg)
      let ?st1 = "st\<lparr>stderr := stderr st @ [''Failed on '' @ name p @ '': '' @ msg]\<rparr>"
      have "process_images lib det th outd ps ?st1 = (r, st')"
        using Cons.prems Inl Exc by simp
      from Cons.IH[OF this] obtain k where k: "k \<le> length ps"
        "process_images lib det th outd (take k ps) ?st1 = (None, st')" "r = None \<longrightarrow> k = length ps"
        by blast
      have "process_images lib det th outd (take (Suc k) (p # ps)) st = (None, st')"
        using k(2) Inl Exc by simp
      then show ?thesis using k(1,3) by (intro exI[of _ "Suc k"]) simp
    next
      case (NonExc msg)
      then have "st' = st" "r \<noteq> None" using Cons.prems Inl by auto
      then show ?thesis by (intro exI[of _ 0]) simp
    qed
  next
    case (Inr img)
    show ?thesis
    proof (cases "save lib (disk st) img (outd @ [name p])")
      case sl: (Inl e)
      then have "st' = st" "r \<noteq> None" using Cons.prems Inr by (auto simp: Let_def)
      then show ?thesis by (intro exI[of _ 0]) simp
    next
      case sr: (Inr fs')
      have "process_images lib det th outd ps (st\<lparr>disk := fs'\<rparr>) = (r, st')"
        using Cons.prems Inr sr by (simp add: Let_def)
      from Cons.IH[OF this] obtain k where k: "k \<le> length ps"
        "process_images lib det th outd (take k ps) (st\<lparr>disk := fs'\<rparr>) = (None, st')"
        "r = None \<longrightarrow> k = length ps"
        by blast
      have "process_images lib det th outd (take (Suc k) (p # ps)) st = (None, st')"
        using k(2) Inr sr by (simp add: Let_def)
      then show ?thesis using k(1,3) by (intro exI[of _ "Suc k"]) simp
    qed
  qed
qed

lemma process_images_None_saves:
  assumes "distinct ps"
      and "\<And>p q. p \<in> set ps \<Longrightarrow> q \<in> set ps \<Longrightarrow> outd @ [name q] = p \<Longrightarrow> q = p"
      and "\<And>p. p \<in> set ps \<Longrightarrow> lookup (disk st) p = lookup fs0 p"
      and "process_images lib det th outd ps st = (None, st')"
      and "p \<in> set ps"
  shows "(\<exists>msg. detect_on_image lib fs0 det p th = Inl (Exc msg)) \<or>
         (\<exists>img b. detect_on_image lib fs0 det p th = Inr img \<and> save_encode lib img (name p) = Inr b)"
  using assms
proof (induction ps arbitrary: st)
  case Nil
  then show ?case by simp
next
  case (Cons x ps)
  have dist: "distinct ps" and xn: "x \<notin> set ps" using Cons.prems(1) by auto
  have nc: "\<And>a b. a \<in> set ps \<Longrightarrow> b \<in> set ps \<Longrightarrow> outd @ [name b] = a \<Longrightarrow> b = a"
  proof -
    fix a b assume a: "a \<in> set ps" and b: "b \<in> set ps" and e: "outd @ [name b] = a"
    have "a \<in> set (x # ps)" "b \<in> set (x # ps)" using a b by simp_all
    then show "b = a" using e by (rule Cons.prems(2))
  qed
  have D: "detect_on_image lib (disk st) det x th = detect_on_image lib fs0 det x th"
    by (rule detect_on_image_cong) (simp add: Cons.prems(3))
  show ?case
  proof (cases "detect_on_image lib fs0 det x th")
    case (Inl e)
    show ?thesis
    proof (cases e)
      case (Exc msg)
      let ?st1 = "st\<lparr>stderr := stderr st @ [''Failed on '' @ name x @ '': '' @ msg]\<rparr>"
      have run: "process_images lib det th outd ps ?st1 = (None, st')"
        using Cons.prems(4) D Inl Exc by simp
      have agree: "\<And>q. q \<in> set ps \<Longrightarrow> lookup (disk ?st1) q = lookup fs0 q"
        using Cons.prems(3) by simp
      show ?thesis
      proof (cases "p = x")
        case True then show ?thesis using Inl Exc by simp
      next
        case False
        then have pin: "p \<in> set ps" using Cons.prems(5) by simp
        show ?thesis using Cons.IH[OF dist nc agree run pin] .
      qed
    next
      case (NonExc msg)
      then show ?thesis using Cons.prems(4) D Inl by simp
    qed
  next
    case (Inr img)
    from Cons.prems(4) D Inr obtain fs' where sv: "save lib (disk st) img (outd @ [name x]) = Inr fs'"
      and run: "process_images lib det th outd ps (st\<lparr>disk := fs'\<rparr>) = (None, st')"
      by (auto simp: Let_def split: sum.splits)
    from sv obtain b where enc: "save_encode lib img (name x) = Inr b"
      and f: "fs' = AList.update (outd @ [name x]) (File b) (disk st)"
      by (auto simp: save_Inr write_file_Inr name_child)
    have agree: "\<And>q. q \<in> set ps \<Longrightarrow> lookup (disk (st\<lparr>disk := fs'\<rparr>)) q = lookup fs0 q"
    proof -
      fix q assume q: "q \<in> set ps"
      have "q \<noteq> outd @ [name x]"
      proof
        assume "q = outd @ [name x]"
        then have "x = q" using Cons.prems(2)[of q x] q by (metis list.set_intros)
        then show False using xn q by blast
      qed
      then show "lookup (disk (st\<lparr>disk := fs'\<rparr>)) q = lookup fs0 q"
        using f Cons.prems(3)[of q] q by (simp add: lookup_update)
    qed
    show ?thesis
    proof (cases "p = x")
      case True then show ?thesis using Inr enc by simp
    next
      case False
      then have pin: "p \<in> set ps" using Cons.prems(5) by simp
      show ?thesis using Cons.IH[OF dist nc agree run pin] .
    qed
  qed
qed

lemma failures_set:
  "l \<in> set (failures lib fs0 det th ps) \<longleftrightarrow>
     (\<exists>p msg. p \<in> set ps \<and> detect_on_image lib fs0 det p th = Inl (Exc msg) \<and>
               l = ''Failed on '' @ name p @ '': '' @ msg)"
proof (induction ps)
  case Nil then show ?case by (simp add: failures_Nil)
next
  case (Cons p ps)
  show ?case
    unfolding failures_Cons set_append Un_iff Cons.IH
    by (cases "detect_on_image lib fs0 det p th")
       (auto split: sum.splits exc.splits)
qed

lemma process_images_abort:
  "process_images lib det th outd ps st = (Some e, st') \<Longrightarrow>
     \<exists>k. k < length ps \<and> process_images lib det th outd (take k ps) st = (None, st') \<and>
         process_images lib det th outd [ps ! k] st' = (Some e, st')"
proof (induction ps arbitrary: st)
  case Nil
  then show ?case by simp
next
  case (Cons p ps)
  show ?case
  proof (cases "detect_on_image lib (disk st) det p th")
    case (Inl x)
    show ?thesis
    proof (cases x)
      case (Exc msg)
      let ?st1 = "st\<lparr>stderr := stderr st @ [''Failed on '' @ name p @ '': '' @ msg]\<rparr>"
      have "process_images lib det th outd ps ?st1 = (Some e, st')"
        using Cons.prems Inl Exc by simp
      from Cons.IH[OF this] obtain k where k: "k < length ps"
        "process_images lib det th outd (take k ps) ?st1 = (None, st')"
        "process_images lib det th outd [ps ! k] st' = (Some e, st')"
        by blast
      have "process_images lib det th outd (take (Suc k) (p # ps)) st = (None, st')"
        using k(2) Inl Exc by simp
      then show ?thesis using k(1,3) by (intro exI[of _ "Suc k"]) simp
    next
      case (NonExc msg)
      then have "st' = st" "e = NonExc msg" using Cons.prems Inl by auto
      then show ?thesis using Inl NonExc by (intro exI[of _ 0]) simp
    qed
  next
    case (Inr img)
    show ?thesis
    proof (cases "save lib (disk st) img (outd @ [name p])")
      case sl: (Inl x)
      then have "st' = st" "e = x" using Cons.prems Inr by (auto simp: Let_def)
      then show ?thesis using Inr sl by (intro exI[of _ 0]) (simp add: Let_def)
    next
      case sr: (Inr fs')
      have "process_images lib det th outd ps (st\<lparr>disk := fs'\<rparr>) = (Some e, st')"
        using Cons.prems Inr sr by (simp add: Let_def)
      from Cons.IH[OF this] obtain k where k: "k < length ps"
        "process_images lib det th outd (take k ps) (st\<lparr>disk := fs'\<rparr>) = (None, st')"
        "process_images lib det th outd [ps ! k] st' = (Some e, st')"
        by blast
      have "process_images lib det th outd (take (Suc k) (p # ps)) st = (None, st')"
        using k(2) Inr sr by (simp add: Let_def)
      then show ?thesis using k(1,3) by (intro exI[of _ "Suc k"]) simp
    qed
  qed
qed

subsection \<open>main\<close>

lemma main_run:
  assumes "in_dir args = Some ind" "is_dir (disk st) ind" "out_dir args = Some outd"
      and "mkdir (disk st) outd = Inr fs1"
      and "from_path lib fs1 (model_path args) = Inr det"
      and "Threshold lib (threshold args) = Inr th"
      and "iter_images fs1 ind = Inr ps" "ps \<noteq> []"
  shows "main lib st args =
           (case process_images lib det th outd ps (st\<lparr>disk := fs1\<rparr>) of
              (Some e, st') \<Rightarrow> (Raise e, st')
            | (None, st') \<Rightarrow> (Return 0, st'))"
  using assms by (simp add: main_def)

lemma main_Return_0D:
  assumes "main lib st args = (Return 0, st')"
  shows "\<exists>ind outd fs1 det th ps.
           in_dir args = Some ind \<and> is_dir (disk st) ind \<and> out_dir args = Some outd \<and>
           mkdir (disk st) outd = Inr fs1 \<and>
           from_path lib fs1 (model_path args) = Inr det \<and>
           Threshold lib (threshold args) = Inr th \<and>
           iter_images fs1 ind = Inr ps \<and> ps \<noteq> [] \<and>
           process_images lib det th outd ps (st\<lparr>disk := fs1\<rparr>) = (None, st')"
  using assms
  by (auto simp: main_def split: option.splits if_splits sum.splits prod.splits)

lemma mkdir_keeps:
  "mkdir fs p = Inr fs1 \<Longrightarrow> lookup fs q = Some n \<Longrightarrow> lookup fs1 q = Some n"
  using mkdir_lookup[of fs p fs1 q] by auto

lemma mkdir_is_file: "mkdir fs p = Inr fs1 \<Longrightarrow> is_file fs1 q = is_file fs q"
  using mkdir_lookup[of fs p fs1 q] by (auto simp: is_file_def)

lemma mkdir_keeps_dir: "mkdir fs p = Inr fs1 \<Longrightarrow> is_dir fs q \<Longrightarrow> is_dir fs1 q"
  unfolding is_dir_def by (rule mkdir_keeps)

lemma iter_images_batch:
  assumes "is_dir fs d" and "iter_images fs d = Inr ps"
  shows "distinct (map name ps)" and "sorted ps" and "distinct ps"
    and "\<And>p. p \<in> set ps \<Longrightarrow> p = d @ [name p]"
    and "\<And>p. p \<in> set ps \<Longrightarrow> is_file fs p"
    and "\<And>p q. p \<in> set ps \<Longrightarrow> q \<in> set ps \<Longrightarrow> outd @ [name q] = p \<Longrightarrow> q = p"
    and "set ps = {p. (\<exists>n. p = d @ [n]) \<and> is_file fs p \<and> lower (suffix p) \<in> exts}"
proof -
  from iter_images_props[OF assms(1)] assms(2)
  have s: "set ps = {p. (\<exists>n. p = d @ [n]) \<and> is_file fs p \<and> lower (suffix p) \<in> exts}"
    and srt: "sorted ps" and dist: "distinct ps" by auto
  show "set ps = {p. (\<exists>n. p = d @ [n]) \<and> is_file fs p \<and> lower (suffix p) \<in> exts}" by (rule s)
  show "sorted ps" by (rule srt)
  show "distinct ps" by (rule dist)
  show kids: "p = d @ [name p]" if "p \<in> set ps" for p
    using that s by (auto simp: name_child)
  show "is_file fs p" if "p \<in> set ps" for p using that s by auto
  show "distinct (map name ps)" using dist kids by (rule children_distinct_names)
  show "q = p" if "p \<in> set ps" "q \<in> set ps" "outd @ [name q] = p" for p q
  proof -
    have "outd @ [name q] = d @ [name p]" using kids[OF that(1)] that(3) by simp
    then have "d @ [name q] = d @ [name p]" by simp
    then show ?thesis using kids[OF that(1)] kids[OF that(2)] by simp
  qed
qed

lemma batch_result:
  assumes "is_dir fs1 ind" "iter_images fs1 ind = Inr ps"
      and "process_images lib det th outd ps (st\<lparr>disk := fs1\<rparr>) = (None, st')"
  shows "st' = st\<lparr>disk := write_all (outputs lib fs1 det th outd ps) fs1,
                  stderr := stderr st @ failures lib fs1 det th ps\<rparr>"
proof -
  note b = iter_images_batch[OF assms(1,2)]
  have "st' = (st\<lparr>disk := fs1\<rparr>)\<lparr>disk := write_all (outputs lib fs1 det th outd ps) (disk (st\<lparr>disk := fs1\<rparr>)),
                  stderr := stderr (st\<lparr>disk := fs1\<rparr>) @ failures lib fs1 det th ps\<rparr>"
  proof (rule process_images_closed_form[OF b(3) b(6) _ assms(3)])
    fix p show "lookup (disk (st\<lparr>disk := fs1\<rparr>)) p = lookup fs1 p" by simp
  qed
  then show ?thesis by simp
qed

subsection \<open>The batch as a whole\<close>

lemma distinct_names_inj:
  "distinct (map name ps) \<Longrightarrow> p \<in> set ps \<Longrightarrow> q \<in> set ps \<Longrightarrow> name p = name q \<Longrightarrow> p = q"
  by (metis distinct_map inj_onD)

lemma lookup_output_written:
  assumes "distinct (map name ps)" "p \<in> set ps"
      and "detect_on_image lib fs0 det p th = Inr img" "save_encode lib img (name p) = Inr b"
  shows "lookup (write_all (outputs lib fs0 det th outd ps) fs) (outd @ [name p]) = Some (File b)"
proof (rule lookup_write_all_member)
  show "distinct (map fst (outputs lib fs0 det th outd ps))"
    using assms(1) by (rule outputs_distinct)
  show "(outd @ [name p], b) \<in> set (outputs lib fs0 det th outd ps)"
    unfolding outputs_set using assms(2-4) by blast
  show "\<And>g c. (g, c) \<in> set (outputs lib fs0 det th outd ps) \<Longrightarrow> g \<noteq> []"
    by (rule outputs_keys_nonempty)
qed

lemma lookup_output_untouched:
  assumes "distinct (map name ps)" "p \<in> set ps"
      and "detect_on_image lib fs0 det p th = Inl e"
  shows "lookup (write_all (outputs lib fs0 det th outd ps) fs) (outd @ [name p]) =
         lookup fs (outd @ [name p])"
proof (rule lookup_write_all_other)
  fix g c assume gc: "(g, c) \<in> set (outputs lib fs0 det th outd ps)"
  then obtain q img where q: "q \<in> set ps" "detect_on_image lib fs0 det q th = Inr img"
    "g = outd @ [name q]" unfolding outputs_set by blast
  have "q \<noteq> p" using q(2) assms(3) by auto
  then have "name q \<noteq> name p" using distinct_names_inj[OF assms(1) q(1) assms(2)] by blast
  then show "g \<noteq> [] \<and> g \<noteq> outd @ [name p]" using q(3) by simp
qed

lemma lookup_not_output:
  assumes "\<And>n. q \<noteq> outd @ [n]"
  shows "lookup (write_all (outputs lib fs0 det th outd ps) fs) q = lookup fs q"
proof (rule lookup_write_all_other)
  fix g c assume "(g, c) \<in> set (outputs lib fs0 det th outd ps)"
  then obtain r where "g = outd @ [name r]" unfolding outputs_set by blast
  then show "g \<noteq> [] \<and> g \<noteq> q" using assms by auto
qed

lemma concat_map_single:
  "distinct ps \<Longrightarrow> x \<in> set ps \<Longrightarrow> (\<And>p. p \<in> set ps \<Longrightarrow> p \<noteq> x \<Longrightarrow> g p = []) \<Longrightarrow>
     concat (map g ps) = g x"
proof (induction ps)
  case Nil then show ?case by simp
next
  case (Cons a ps)
  show ?case
  proof (cases "a = x")
    case True
    then have "x \<notin> set ps" using Cons.prems(1) by simp
    then have "\<And>p. p \<in> set ps \<Longrightarrow> g p = []" using Cons.prems(3) by (metis list.set_intros(2))
    then have "concat (map g ps) = []" by simp
    then show ?thesis using True by simp
  next
    case False
    then have xin: "x \<in> set ps" using Cons.prems(2) by simp
    have dist: "distinct ps" using Cons.prems(1) by simp
    have rest: "\<And>p. p \<in> set ps \<Longrightarrow> p \<noteq> x \<Longrightarrow> g p = []"
      using Cons.prems(3) by (metis list.set_intros(2))
    have "concat (map g ps) = g x" using dist xin rest by (rule Cons.IH)
    moreover have "g a = []" using Cons.prems(3)[of a] False by simp
    ultimately show ?thesis by simp
  qed
qed

lemma length_filter_all_but_one:
  "distinct ps \<Longrightarrow> x \<in> set ps \<Longrightarrow> \<not> P x \<Longrightarrow> (\<And>p. p \<in> set ps \<Longrightarrow> p \<noteq> x \<Longrightarrow> P p) \<Longrightarrow>
     length (filter P ps) = length ps - 1"
proof (induction ps)
  case Nil then show ?case by simp
next
  case (Cons a ps)
  show ?case
  proof (cases "a = x")
    case True
    then have "x \<notin> set ps" using Cons.prems(1) by simp
    then have "\<And>p. p \<in> set ps \<Longrightarrow> P p" using Cons.prems(4) by (metis list.set_intros(2))
    then have "filter P ps = ps" by (simp add: filter_id_conv)
    then show ?thesis using True Cons.prems(3) by simp
  next
    case False
    then have x: "x \<in> set ps" using Cons.prems(2) by simp
    have dist: "distinct ps" using Cons.prems(1) by simp
    have rest: "\<And>p. p \<in> set ps \<Longrightarrow> p \<noteq> x \<Longrightarrow> P p"
      using Cons.prems(4) by (metis list.set_intros(2))
    have "length (filter P ps) = length ps - 1" using dist x Cons.prems(3) rest by (rule Cons.IH)
    moreover have "P a" using Cons.prems(4)[of a] False by simp
    moreover have "length ps > 0" using x by (cases ps) auto
    ultimately show ?thesis by simp
  qed
qed

lemma main_completes:
  assumes "in_dir args = Some ind" "is_dir (disk st) ind" "out_dir args = Some outd"
      and "mkdir (disk st) outd = Inr fs1"
      and "from_path lib fs1 (model_path args) = Inr det"
      and "Threshold lib (threshold args) = Inr th"
      and "iter_images fs1 ind = Inr ps" "ps \<noteq> []"
      and "\<And>p. p \<in> set ps \<Longrightarrow>
             (\<exists>msg. detect_on_image lib fs1 det p th = Inl (Exc msg)) \<or>
             (\<exists>img fs'. detect_on_image lib fs1 det p th = Inr img \<and>
                         save lib fs1 img (outd @ [name p]) = Inr fs')"
  shows "main lib st args =
           (Return 0, st\<lparr>disk := write_all (outputs lib fs1 det th outd ps) fs1,
                         stderr := stderr st @ failures lib fs1 det th ps\<rparr>)"
proof -
  have d: "is_dir fs1 ind" using assms(4,2) by (rule mkdir_keeps_dir)
  note b = iter_images_batch[OF d assms(7)]
  have "\<exists>st'. process_images lib det th outd ps (st\<lparr>disk := fs1\<rparr>) = (None, st')"
  proof (rule process_images_completes[OF b(1) b(6) _ _ _ assms(9)])
    fix p show "lookup (disk (st\<lparr>disk := fs1\<rparr>)) p = lookup fs1 p" by simp
    show "lookup (disk (st\<lparr>disk := fs1\<rparr>)) (outd @ [name p]) = lookup fs1 (outd @ [name p])" by simp
    show "lookup (disk (st\<lparr>disk := fs1\<rparr>)) outd = lookup fs1 outd" by simp
  qed
  then obtain st' where run: "process_images lib det th outd ps (st\<lparr>disk := fs1\<rparr>) = (None, st')"
    by blast
  have "st' = st\<lparr>disk := write_all (outputs lib fs1 det th outd ps) fs1,
                  stderr := stderr st @ failures lib fs1 det th ps\<rparr>"
    using d assms(7) run by (rule batch_result)
  then show ?thesis using main_run[OF assms(1-8)] run by simp
qed

lemma detector_raises:
  "Image_open lib fs p = Inr i0 \<Longrightarrow> convert lib i0 ''RGB'' = Inr i \<Longrightarrow>
   detect lib det i th = Inl e \<Longrightarrow> detect_on_image lib fs det p th = Inl e"
  by (simp add: detect_on_image_def)

lemma outputs_keys:
  "map fst (outputs lib fs0 det th outd ps) =
     map (\<lambda>p. outd @ [name p])
       (filter (\<lambda>p. \<exists>img b. detect_on_image lib fs0 det p th = Inr img \<and>
                             save_encode lib img (name p) = Inr b) ps)"
proof (induction ps)
  case Nil then show ?case by (simp add: outputs_Nil)
next
  case (Cons p ps)
  show ?case
  proof (cases "detect_on_image lib fs0 det p th")
    case (Inl e) then show ?thesis using Cons.IH by (simp add: outputs_Cons)
  next
    case (Inr img)
    then show ?thesis using Cons.IH
      by (cases "save_encode lib img (name p)") (simp_all add: outputs_Cons)
  qed
qed

lemma take_not_child: "take k outd \<noteq> outd @ [n]"
proof
  assume "take k outd = outd @ [n]"
  then have "length (take k outd) = length (outd @ [n])" by simp
  then show False by simp
qed




lemma main_outcome:
  assumes "in_dir args = Some ind" "is_dir (disk st) ind" "out_dir args = Some outd"
      and "mkdir (disk st) outd = Inr fs1"
      and "from_path lib fs1 (model_path args) = Inr det"
      and "Threshold lib (threshold args) = Inr th"
      and "iter_images fs1 ind = Inr ps"
      and "main lib st args = (r, st')"
  shows "\<exists>k. k \<le> length ps \<and> (r = Return 0 \<longrightarrow> k = length ps) \<and>
             (\<forall>e. r = Raise e \<longrightarrow>
                k < length ps \<and> process_images lib det th outd [ps ! k] st' = (Some e, st')) \<and>
             disk st' = write_all (outputs lib fs1 det th outd (take k ps)) fs1 \<and>
             (ps \<noteq> [] \<longrightarrow>
                stderr st' = stderr st @ failures lib fs1 det th (take k ps) \<and>
                process_images lib det th outd (take k ps) (st\<lparr>disk := fs1\<rparr>) = (None, st'))"
proof (cases "ps = []")
  case True
  then have "main lib st args =
      (Return 1, st\<lparr>disk := fs1, stderr := stderr st @ [''No images found in '' @ path_str ind]\<rparr>)"
    using assms(1-7) by (simp add: main_def)
  then have "r = Return 1" "disk st' = fs1" using assms(8) by auto
  then show ?thesis using True
    by (intro exI[of _ 0]) (simp add: outputs_Nil write_all_Nil)
next
  case False
  have d: "is_dir fs1 ind" using assms(4,2) by (rule mkdir_keeps_dir)
  note b = iter_images_batch[OF d assms(7)]
  let ?st1 = "st\<lparr>disk := fs1\<rparr>"
  obtain r0 where run: "process_images lib det th outd ps ?st1 = (r0, st')"
    and r: "r = (case r0 of None \<Rightarrow> Return 0 | Some e \<Rightarrow> Raise e)"
    using main_run[OF assms(1-7) False] assms(8)
    by (cases "process_images lib det th outd ps ?st1") (auto split: option.splits)
  have closed: "disk st' = write_all (outputs lib fs1 det th outd (take k ps)) fs1 \<and>
                stderr st' = stderr st @ failures lib fs1 det th (take k ps)"
    if pre: "process_images lib det th outd (take k ps) ?st1 = (None, st')" for k
  proof -
    have sub: "\<And>q. q \<in> set (take k ps) \<Longrightarrow> q \<in> set ps" by (rule in_set_takeD)
    have "st' = ?st1\<lparr>disk := write_all (outputs lib fs1 det th outd (take k ps)) (disk ?st1),
                  stderr := stderr ?st1 @ failures lib fs1 det th (take k ps)\<rparr>"
    proof (rule process_images_closed_form[OF _ _ _ pre])
      show "distinct (take k ps)" using b(3) by simp
      fix x y assume "x \<in> set (take k ps)" "y \<in> set (take k ps)" "outd @ [name y] = x"
      then show "y = x" using b(6)[of x y outd] sub by blast
    next
      fix q show "lookup (disk ?st1) q = lookup fs1 q" by simp
    qed
    then show ?thesis by simp
  qed
  show ?thesis
  proof (cases r0)
    case None
    then have pre: "process_images lib det th outd (take (length ps) ps) ?st1 = (None, st')"
      using run by simp
    have "r = Return 0" using r None by simp
    then show ?thesis using closed[OF pre] pre
      by (intro exI[of _ "length ps"]) simp
  next
    case (Some e)
    from process_images_abort[OF run[unfolded Some]] obtain k where k: "k < length ps"
      "process_images lib det th outd (take k ps) ?st1 = (None, st')"
      "process_images lib det th outd [ps ! k] st' = (Some e, st')"
      by blast
    have "r = Raise e" using r Some by simp
    then show ?thesis using closed[OF k(2)] k
      by (intro exI[of _ k]) simp
  qed
qed

subsection \<open>Drawing\<close>

lemma run_calls_append:
  "run_calls lib img (cs @ ds) =
     (case run_calls lib img cs of Inl e \<Rightarrow> Inl e | Inr img' \<Rightarrow> run_calls lib img' ds)"
  by (induction cs arbitrary: img) (auto split: sum.splits)

lemma draw_points_calls:
  "draw_points lib img pts =
     run_calls lib img (map (\<lambda>(x, y). Ellipse (x - 3, y - 3, x + 3, y + 3) ''red'' ''red'') pts)"
  by (induction lib img pts rule: draw_points.induct) (auto simp: Let_def split: sum.splits)

lemma draw_faces_run_calls:
  "draw_faces lib img faces = run_calls lib img (concat (map face_calls faces))"
proof (induction faces arbitrary: img)
  case Nil then show ?case by simp
next
  case (Cons face faces)
  show ?case
    by (simp add: Cons.IH face_calls_def marker_def Let_def draw_points_calls split: sum.splits)
qed

section \<open>Main results\<close>


text \<open>
  C1, as amended.  Wherever an image stands in the batch, an \<open>Exception\<close> that
  \<open>detect_on_image\<close> raises for it (while decoding, converting, detecting or drawing) is
  caught: the line \<open>Failed on <file name>: <message>\<close> is added to the error stream, the
  file system is left as it was and the loop goes on with the next image.  The save is
  outside the \<open>try\<close>: an exception it raises leaves the loop, and the remaining images
  are not processed.
\<close>

theorem detect_failure_isolated:
  assumes "process_images lib det th outd ps1 st = (None, st1)"
  shows "(\<forall>msg. detect_on_image lib (disk st1) det p th = Inl (Exc msg) \<longrightarrow>
            process_images lib det th outd (ps1 @ p # ps2) st =
              process_images lib det th outd ps2
                (st1\<lparr>stderr := stderr st1 @ [''Failed on '' @ name p @ '': '' @ msg]\<rparr>)) \<and>
         (\<forall>img e. detect_on_image lib (disk st1) det p th = Inr img \<and>
                  save lib (disk st1) img (outd @ [name p]) = Inl e \<longrightarrow>
            process_images lib det th outd (ps1 @ p # ps2) st = (Some e, st1))"
  using assms by (simp add: process_images_append Let_def)

theorem detect_failure_isolated_witness:
  "process_images ex_lib () 40 [''out''] [] ex_state = (None, ex_state) \<and>
   detect_on_image ex_lib (disk ex_state) () [''in'', ''a.jpg''] 40 = Inl (Exc ''inference failed'') \<and>
   process_images ex_lib () 40 [''out''] ([] @ [''in'', ''a.jpg''] # [[''in'', ''c.webp'']]) ex_state =
     process_images ex_lib () 40 [''out''] [[''in'', ''c.webp'']]
       (ex_state\<lparr>stderr := stderr ex_state @ [''Failed on '' @ name [''in'', ''a.jpg''] @ '': '' @ ''inference failed'']\<rparr>)"
proof -
  have h: "process_images ex_lib () 40 [''out''] [] ex_state = (None, ex_state)" by simp
  have d: "detect_on_image ex_lib (disk ex_state) () [''in'', ''a.jpg''] 40 = Inl (Exc ''inference failed'')"
    by (simp add: detect_on_image_def Image_open_def lookup_def ex_state_def ex_fs_def ex_lib_def)
  from detect_failure_isolated[OF h, of "[''in'', ''a.jpg'']" "[[''in'', ''c.webp'']]"] d h
  show ?thesis by blast
qed

text \<open>
  C1 as stated fails for the save step: with a directory in the place of the output
  file of \<open>b.PNG\<close>, the save raises, \<open>main\<close> ends with that exception, no line is
  printed for \<open>b.PNG\<close> and \<open>c.webp\<close>, the next image, is never processed.
\<close>

theorem save_failure_aborts_batch:
  "detect_on_image ex_lib ex_fs_blocked () [''in'', ''b.PNG''] 40 = Inr ''pixels[]ooooo'' \<and>
   save ex_lib ex_fs_blocked ''pixels[]ooooo'' [''out'', ''faces'', ''b.PNG''] = Inl (Exc ''Is a directory'') \<and>
   main ex_lib \<lparr>disk = ex_fs_blocked, stderr = []\<rparr> ex_args =
     (Raise (Exc ''Is a directory''),
      \<lparr>disk = ex_fs_blocked, stderr = [''Failed on a.jpg: inference failed'']\<rparr>) \<and>
   is_file ex_fs_blocked [''in'', ''c.webp''] \<and>
   lookup ex_fs_blocked [''out'', ''faces'', ''c.webp''] = None"
  by code_simp

text \<open>
  C2, as amended.  Let the set-up succeed (both directories given, the input directory
  exists, the output directory can be made, the model loads) and at least one image be
  listed.  If every image either makes \<open>detect_on_image\<close> raise an \<open>Exception\<close> or is
  annotated and can be saved, then \<open>main\<close> returns 0, so the exit status is 0, after going
  through every listed image: the file system ends as the one after \<open>mkdir\<close> with the
  output of every annotated image written under its own name, and the error stream has
  one line per failed image.  When the detector raises on exactly one of the \<open>N\<close> images
  and the others are annotated, \<open>N - 1\<close> files are written, under distinct names, and
  the line naming the failed file is the only one printed.
\<close>

theorem main_returns_zero:
  assumes "in_dir args = Some ind" "is_dir (disk st) ind" "out_dir args = Some outd"
      and "mkdir (disk st) outd = Inr fs1"
      and "from_path lib fs1 (model_path args) = Inr det"
      and "Threshold lib (threshold args) = Inr th"
      and "iter_images fs1 ind = Inr ps" "ps \<noteq> []"
      and "\<forall>p\<in>set ps.
             (\<exists>msg. detect_on_image lib fs1 det p th = Inl (Exc msg)) \<or>
             (\<exists>img fs'. detect_on_image lib fs1 det p th = Inr img \<and>
                         save lib fs1 img (outd @ [name p]) = Inr fs')"
  shows "\<exists>st'. main lib st args = (Return 0, st') \<and>
           exit_status (fst (main lib st args)) = Some 0 \<and>
           disk st' = write_all (outputs lib fs1 det th outd ps) fs1 \<and>
           stderr st' = stderr st @ failures lib fs1 det th ps \<and>
           (\<forall>p\<in>set ps. \<forall>img. detect_on_image lib fs1 det p th = Inr img \<longrightarrow>
              (\<exists>b. save_encode lib img (name p) = Inr b \<and>
                   lookup (disk st') (outd @ [name p]) = Some (File b))) \<and>
           (\<forall>p\<in>set ps. \<forall>msg. detect_on_image lib fs1 det p th = Inl (Exc msg) \<longrightarrow>
              ''Failed on '' @ name p @ '': '' @ msg \<in> set (stderr st') \<and>
              lookup (disk st') (outd @ [name p]) = lookup fs1 (outd @ [name p])) \<and>
           (\<forall>bad msg.
              bad \<in> set ps \<and>
              (\<exists>i0 i. Image_open lib fs1 bad = Inr i0 \<and> convert lib i0 ''RGB'' = Inr i \<and>
                      detect lib det i th = Inl (Exc msg)) \<and>
              (\<forall>p\<in>set ps. p \<noteq> bad \<longrightarrow> (\<exists>img. detect_on_image lib fs1 det p th = Inr img)) \<longrightarrow>
              length (outputs lib fs1 det th outd ps) = length ps - 1 \<and>
              distinct (map fst (outputs lib fs1 det th outd ps)) \<and>
              stderr st' = stderr st @ [''Failed on '' @ name bad @ '': '' @ msg])"
proof -
  let ?D = "\<lambda>p. detect_on_image lib fs1 det p th"
  let ?W = "outputs lib fs1 det th outd ps"
  let ?L = "failures lib fs1 det th ps"
  define st' where "st' = st\<lparr>disk := write_all ?W fs1, stderr := stderr st @ ?L\<rparr>"
  have ok: "\<And>p. p \<in> set ps \<Longrightarrow>
             (\<exists>msg. ?D p = Inl (Exc msg)) \<or>
             (\<exists>img fs'. ?D p = Inr img \<and> save lib fs1 img (outd @ [name p]) = Inr fs')"
    using assms(9) by blast
  have m: "main lib st args = (Return 0, st')"
    unfolding st'_def by (rule main_completes[OF assms(1-8) ok])
  have d: "is_dir fs1 ind" using assms(4,2) by (rule mkdir_keeps_dir)
  note b = iter_images_batch[OF d assms(7)]
  have ex: "exit_status (fst (main lib st args)) = Some 0" by (simp add: m exit_status_def)
  have dk: "disk st' = write_all ?W fs1" and se: "stderr st' = stderr st @ ?L"
    by (simp_all add: st'_def)
  have enc: "\<exists>b. save_encode lib img (name p) = Inr b" if "p \<in> set ps" "?D p = Inr img" for p img
    using ok[OF that(1)] that(2) by (auto simp: save_Inr name_child)
  have good: "\<forall>p\<in>set ps. \<forall>img. ?D p = Inr img \<longrightarrow>
              (\<exists>b. save_encode lib img (name p) = Inr b \<and>
                   lookup (disk st') (outd @ [name p]) = Some (File b))"
  proof (intro ballI allI impI)
    fix p img assume p: "p \<in> set ps" and i: "?D p = Inr img"
    from enc[OF p i] obtain b where e: "save_encode lib img (name p) = Inr b" by blast
    have "lookup (disk st') (outd @ [name p]) = Some (File b)"
      unfolding dk using b(1) p i e by (rule lookup_output_written)
    with e show "\<exists>b. save_encode lib img (name p) = Inr b \<and>
                   lookup (disk st') (outd @ [name p]) = Some (File b)" by blast
  qed
  have failed: "\<forall>p\<in>set ps. \<forall>msg. ?D p = Inl (Exc msg) \<longrightarrow>
              ''Failed on '' @ name p @ '': '' @ msg \<in> set (stderr st') \<and>
              lookup (disk st') (outd @ [name p]) = lookup fs1 (outd @ [name p])"
  proof (intro ballI allI impI conjI)
    fix p msg assume p: "p \<in> set ps" and f: "?D p = Inl (Exc msg)"
    have "''Failed on '' @ name p @ '': '' @ msg \<in> set ?L"
      unfolding failures_set using p f by blast
    then show "''Failed on '' @ name p @ '': '' @ msg \<in> set (stderr st')" by (simp add: se)
    show "lookup (disk st') (outd @ [name p]) = lookup fs1 (outd @ [name p])"
      unfolding dk using b(1) p f by (rule lookup_output_untouched)
  qed
  have one: "\<forall>bad msg.
              bad \<in> set ps \<and>
              (\<exists>i0 i. Image_open lib fs1 bad = Inr i0 \<and> convert lib i0 ''RGB'' = Inr i \<and>
                      detect lib det i th = Inl (Exc msg)) \<and>
              (\<forall>p\<in>set ps. p \<noteq> bad \<longrightarrow> (\<exists>img. ?D p = Inr img)) \<longrightarrow>
              length ?W = length ps - 1 \<and> distinct (map fst ?W) \<and>
              stderr st' = stderr st @ [''Failed on '' @ name bad @ '': '' @ msg]"
  proof (intro allI impI)
    fix bad msg
    assume h: "bad \<in> set ps \<and>
              (\<exists>i0 i. Image_open lib fs1 bad = Inr i0 \<and> convert lib i0 ''RGB'' = Inr i \<and>
                      detect lib det i th = Inl (Exc msg)) \<and>
              (\<forall>p\<in>set ps. p \<noteq> bad \<longrightarrow> (\<exists>img. ?D p = Inr img))"
    then have bin: "bad \<in> set ps" and others: "\<And>p. p \<in> set ps \<Longrightarrow> p \<noteq> bad \<Longrightarrow> \<exists>img. ?D p = Inr img"
      by blast+
    from h obtain i0 i where "Image_open lib fs1 bad = Inr i0" "convert lib i0 ''RGB'' = Inr i"
      "detect lib det i th = Inl (Exc msg)" by blast
    then have bf: "?D bad = Inl (Exc msg)" by (rule detector_raises)
    let ?S = "\<lambda>p. \<exists>img b. ?D p = Inr img \<and> save_encode lib img (name p) = Inr b"
    have "length ?W = length (map fst ?W)" by simp
    also have "\<dots> = length (filter ?S ps)" by (simp only: outputs_keys length_map)
    also have "\<dots> = length ps - 1"
    proof (rule length_filter_all_but_one[OF b(3) bin])
      show "\<not> ?S bad" using bf by simp
      fix p assume "p \<in> set ps" "p \<noteq> bad"
      then show "?S p" using others enc by blast
    qed
    finally have len: "length ?W = length ps - 1" .
    have dis: "distinct (map fst ?W)" using b(1) by (rule outputs_distinct)
    let ?g = "\<lambda>p. case ?D p of
                          Inl (Exc msg) \<Rightarrow> [''Failed on '' @ name p @ '': '' @ msg]
                        | Inl (NonExc msg) \<Rightarrow> []
                        | Inr img \<Rightarrow> []"
    have "?L = concat (map ?g ps)" by (simp add: failures_def)
    also have "\<dots> = ?g bad"
    proof (rule concat_map_single[OF b(3) bin])
      fix p assume "p \<in> set ps" "p \<noteq> bad"
      then obtain img where "?D p = Inr img" using others by blast
      then show "?g p = []" by simp
    qed
    also have "\<dots> = [''Failed on '' @ name bad @ '': '' @ msg]" using bf by simp
    finally have L: "?L = [''Failed on '' @ name bad @ '': '' @ msg]" .
    have "stderr st' = stderr st @ [''Failed on '' @ name bad @ '': '' @ msg]"
      by (simp only: se L)
    with len dis
    show "length ?W = length ps - 1 \<and> distinct (map fst ?W) \<and>
              stderr st' = stderr st @ [''Failed on '' @ name bad @ '': '' @ msg]" by blast
  qed
  from m ex dk se good failed one show ?thesis by blast
qed

theorem main_returns_zero_witness:
  "\<exists>st'. main ex_lib ex_state ex_args = (Return 0, st') \<and>
      exit_status (fst (main ex_lib ex_state ex_args)) = Some 0 \<and>
      length (outputs ex_lib ex_fs_out () 40 [''out'', ''faces'']
                [[''in'', ''a.jpg''], [''in'', ''b.PNG''], [''in'', ''c.webp'']]) =
        length [[''in'', ''a.jpg''], [''in'', ''b.PNG''], [''in'', ''c.webp'']] - 1 \<and>
      stderr st' = stderr ex_state @ [''Failed on '' @ name [''in'', ''a.jpg''] @ '': '' @ ''inference failed''] \<and>
      lookup (disk st') ([''out'', ''faces''] @ [name [''in'', ''b.PNG'']]) = Some (File ''pixels[]ooooo'')"
proof -
  let ?a = "[''in'', ''a.jpg'']" and ?b = "[''in'', ''b.PNG'']" and ?c = "[''in'', ''c.webp'']"
  let ?out = "[''out'', ''faces'']"
  have h1: "in_dir ex_args = Some [''in'']" by (simp add: ex_args_def)
  have h2: "is_dir (disk ex_state) [''in'']" by code_simp
  have h3: "out_dir ex_args = Some ?out" by (simp add: ex_args_def)
  have h4: "mkdir (disk ex_state) ?out = Inr ex_fs_out" by code_simp
  have h5: "from_path ex_lib ex_fs_out (model_path ex_args) = Inr ()" by code_simp
  have h6: "Threshold ex_lib (threshold ex_args) = Inr 40" by code_simp
  have h7: "iter_images ex_fs_out [''in''] = Inr [?a, ?b, ?c]" by code_simp
  have h8: "[?a, ?b, ?c] \<noteq> []" by simp
  have da: "detect_on_image ex_lib ex_fs_out () ?a 40 = Inl (Exc ''inference failed'')" by code_simp
  have db: "detect_on_image ex_lib ex_fs_out () ?b 40 = Inr ''pixels[]ooooo''" by code_simp
  have dc: "detect_on_image ex_lib ex_fs_out () ?c 40 = Inr ''nobody''" by code_simp
  have sb: "save ex_lib ex_fs_out ''pixels[]ooooo'' (?out @ [name ?b]) =
              Inr (ex_fs_out @ [([''out'', ''faces'', ''b.PNG''], File ''pixels[]ooooo'')])" by code_simp
  have sc: "save ex_lib ex_fs_out ''nobody'' (?out @ [name ?c]) =
              Inr (ex_fs_out @ [([''out'', ''faces'', ''c.webp''], File ''nobody'')])" by code_simp
  have h9: "\<forall>p\<in>set [?a, ?b, ?c].
             (\<exists>msg. detect_on_image ex_lib ex_fs_out () p 40 = Inl (Exc msg)) \<or>
             (\<exists>img fs'. detect_on_image ex_lib ex_fs_out () p 40 = Inr img \<and>
                         save ex_lib ex_fs_out img (?out @ [name p]) = Inr fs')"
    using da db dc sb sc by simp
  have t1: "Image_open ex_lib ex_fs_out ?a = Inr ''bad''" by code_simp
  have t2: "convert ex_lib ''bad'' ''RGB'' = Inr ''bad''" by code_simp
  have t3: "detect ex_lib () ''bad'' 40 = Inl (Exc ''inference failed'')" by code_simp
  have others: "\<forall>p\<in>set [?a, ?b, ?c]. p \<noteq> ?a \<longrightarrow> (\<exists>img. detect_on_image ex_lib ex_fs_out () p 40 = Inr img)"
    using db dc by simp
  have bin: "?a \<in> set [?a, ?b, ?c]" and bin2: "?b \<in> set [?a, ?b, ?c]" by simp_all
  have eb: "save_encode ex_lib ''pixels[]ooooo'' (name ?b) = Inr ''pixels[]ooooo''" by code_simp
  from main_returns_zero[OF h1 h2 h3 h4 h5 h6 h7 h8 h9]
  obtain st' where m: "main ex_lib ex_state ex_args = (Return 0, st')"
    and ex: "exit_status (fst (main ex_lib ex_state ex_args)) = Some 0"
    and good: "\<forall>p\<in>set [?a, ?b, ?c]. \<forall>img. detect_on_image ex_lib ex_fs_out () p 40 = Inr img \<longrightarrow>
              (\<exists>b. save_encode ex_lib img (name p) = Inr b \<and>
                   lookup (disk st') (?out @ [name p]) = Some (File b))"
    and one: "\<forall>bad msg.
              bad \<in> set [?a, ?b, ?c] \<and>
              (\<exists>i0 i. Image_open ex_lib ex_fs_out bad = Inr i0 \<and> convert ex_lib i0 ''RGB'' = Inr i \<and>
                      detect ex_lib () i 40 = Inl (Exc msg)) \<and>
              (\<forall>p\<in>set [?a, ?b, ?c]. p \<noteq> bad \<longrightarrow>
                 (\<exists>img. detect_on_image ex_lib ex_fs_out () p 40 = Inr img)) \<longrightarrow>
              length (outputs ex_lib ex_fs_out () 40 ?out [?a, ?b, ?c]) = length [?a, ?b, ?c] - 1 \<and>
              distinct (map fst (outputs ex_lib ex_fs_out () 40 ?out [?a, ?b, ?c])) \<and>
              stderr st' = stderr ex_state @ [''Failed on '' @ name bad @ '': '' @ msg]"
    by blast
  have prem: "?a \<in> set [?a, ?b, ?c] \<and>
              (\<exists>i0 i. Image_open ex_lib ex_fs_out ?a = Inr i0 \<and> convert ex_lib i0 ''RGB'' = Inr i \<and>
                      detect ex_lib () i 40 = Inl (Exc ''inference failed'')) \<and>
              (\<forall>p\<in>set [?a, ?b, ?c]. p \<noteq> ?a \<longrightarrow>
                 (\<exists>img. detect_on_image ex_lib ex_fs_out () p 40 = Inr img))"
    using bin t1 t2 t3 others by blast
  have r1: "length (outputs ex_lib ex_fs_out () 40 ?out [?a, ?b, ?c]) = length [?a, ?b, ?c] - 1"
    and r2: "stderr st' = stderr ex_state @ [''Failed on '' @ name ?a @ '': '' @ ''inference failed'']"
    using one[rule_format, OF prem] by blast+
  from good[rule_format, OF bin2 db] eb
  have r3: "lookup (disk st') (?out @ [name ?b]) = Some (File ''pixels[]ooooo'')" by auto
  from m ex r1 r2 r3 show ?thesis by blast
qed

text \<open>
  C2 as stated fails when a save raises: three images are listed, the save of the second
  raises, the exit status is 1 and the third image is never processed.
\<close>

theorem save_failure_exit_status:
  "iter_images ex_fs_blocked [''in''] =
     Inr [[''in'', ''a.jpg''], [''in'', ''b.PNG''], [''in'', ''c.webp'']] \<and>
   exit_status (fst (main ex_lib \<lparr>disk = ex_fs_blocked, stderr = []\<rparr> ex_args)) = Some 1 \<and>
   \<not> is_file (disk (snd (main ex_lib \<lparr>disk = ex_fs_blocked, stderr = []\<rparr> ex_args)))
         [''out'', ''faces'', ''c.webp'']"
  by code_simp

text \<open>
  C3.  For an input directory \<open>d\<close>, \<open>iter_images\<close> yields exactly the paths \<open>d / n\<close> directly
  in \<open>d\<close> (nothing below a subdirectory) that are regular files and whose name is a
  non-empty stem, a dot and an extension that, lowered, is one of jpg, jpeg, png, bmp,
  webp, tif, tiff.  They come in lexicographic order of their names, each once, so their
  number is the number of such files whatever else the directory holds.
\<close>

theorem iter_images_enumerates:
  assumes "is_dir fs d"
  shows "\<exists>ps. iter_images fs d = Inr ps \<and>
           set ps = {p. (\<exists>n. p = d @ [n]) \<and> is_file fs p \<and>
                        (\<exists>stem e. stem \<noteq> [] \<and> name p = stem @ CHR ''.'' # e \<and>
                           lower e \<in> {''jpg'', ''jpeg'', ''png'', ''bmp'', ''webp'', ''tif'', ''tiff''})} \<and>
           sorted (map name ps) \<and> distinct (map name ps) \<and>
           length ps = card {p. (\<exists>n. p = d @ [n]) \<and> is_file fs p \<and>
                        (\<exists>stem e. stem \<noteq> [] \<and> name p = stem @ CHR ''.'' # e \<and>
                           lower e \<in> {''jpg'', ''jpeg'', ''png'', ''bmp'', ''webp'', ''tif'', ''tiff''})}"
proof -
  let ?S = "{p. (\<exists>n. p = d @ [n]) \<and> is_file fs p \<and>
                        (\<exists>stem e. stem \<noteq> [] \<and> name p = stem @ CHR ''.'' # e \<and>
                           lower e \<in> {''jpg'', ''jpeg'', ''png'', ''bmp'', ''webp'', ''tif'', ''tiff''})}"
  from iter_images_props[OF assms] obtain ps where run: "iter_images fs d = Inr ps"
    and s: "set ps = {p. (\<exists>n. p = d @ [n]) \<and> is_file fs p \<and> lower (suffix p) \<in> exts}"
    and srt: "sorted ps" and dist: "distinct ps" by blast
  have set_ps: "set ps = ?S" unfolding s lower_suffix_in_exts ..
  have kids: "p = d @ [name p]" if "p \<in> set ps" for p
    using that s by (auto simp: name_child)
  have sn: "sorted (map name ps)" using srt kids by (rule children_sorted_names)
  have dn: "distinct (map name ps)" using dist kids by (rule children_distinct_names)
  have "length ps = card (set ps)" using dist by (simp add: distinct_card)
  then have len: "length ps = card ?S" by (simp only: set_ps)
  from run set_ps sn dn len show ?thesis by blast
qed

theorem iter_images_enumerates_witness:
  "is_dir ex_fs [''in''] \<and>
   iter_images ex_fs [''in''] = Inr [[''in'', ''a.jpg''], [''in'', ''b.PNG''], [''in'', ''c.webp'']] \<and>
   (\<exists>ps. iter_images ex_fs [''in''] = Inr ps \<and>
      set ps = {p. (\<exists>n. p = [''in''] @ [n]) \<and> is_file ex_fs p \<and>
                   (\<exists>stem e. stem \<noteq> [] \<and> name p = stem @ CHR ''.'' # e \<and>
                      lower e \<in> {''jpg'', ''jpeg'', ''png'', ''bmp'', ''webp'', ''tif'', ''tiff''})} \<and>
      sorted (map name ps) \<and> distinct (map name ps) \<and>
      length ps = card {p. (\<exists>n. p = [''in''] @ [n]) \<and> is_file ex_fs p \<and>
                   (\<exists>stem e. stem \<noteq> [] \<and> name p = stem @ CHR ''.'' # e \<and>
                      lower e \<in> {''jpg'', ''jpeg'', ''png'', ''bmp'', ''webp'', ''tif'', ''tiff''})})"
proof -
  have d: "is_dir ex_fs [''in'']" by (simp add: is_dir_def lookup_def ex_fs_def)
  have v: "iter_images ex_fs [''in''] = Inr [[''in'', ''a.jpg''], [''in'', ''b.PNG''], [''in'', ''c.webp'']]"
    by code_simp
  from d v iter_images_enumerates[OF d] show ?thesis by blast
qed


text \<open>
  C4.  Neither \<open>--in_dir\<close> nor \<open>--out_dir\<close> is declared as required, so a command line
  without one of them is parsed and the namespace holds \<open>None\<close> for it.  \<open>main\<close> then ends
  with an \<open>AttributeError\<close> on the first use of the missing path: the exit status is 1,
  nothing has been created or loaded, and the argument parser has reported nothing.  An
  input directory that does not exist, by contrast, is reported through \<open>parser.error\<close>,
  with status 2.
\<close>

theorem missing_flag_attribute_error:
  "main lib st (args\<lparr>in_dir := None\<rparr>) =
     (Raise (Exc ''NoneType object has no attribute is_dir''), st) \<and>
   exit_status (Raise (Exc ''NoneType object has no attribute is_dir'')) = Some 1 \<and>
   main ex_lib ex_state (ex_args\<lparr>out_dir := None\<rparr>) =
     (Raise (Exc ''NoneType object has no attribute mkdir''), ex_state) \<and>
   main ex_lib ex_state (ex_args\<lparr>in_dir := Some [''nowhere'']\<rparr>) =
     (SystemExit 2,
      ex_state\<lparr>stderr := [''error: in_dir does not exist or is not a directory: nowhere'']\<rparr>)"
proof -
  have a: "main lib st (args\<lparr>in_dir := None\<rparr>) =
     (Raise (Exc ''NoneType object has no attribute is_dir''), st)"
    by (simp add: main_def)
  have b: "exit_status (Raise (Exc ''NoneType object has no attribute is_dir'')) = Some 1"
    by (simp add: exit_status_def)
  have c: "main ex_lib ex_state (ex_args\<lparr>out_dir := None\<rparr>) =
     (Raise (Exc ''NoneType object has no attribute mkdir''), ex_state)"
    by code_simp
  have d: "main ex_lib ex_state (ex_args\<lparr>in_dir := Some [''nowhere'']\<rparr>) =
     (SystemExit 2,
      ex_state\<lparr>stderr := [''error: in_dir does not exist or is not a directory: nowhere'']\<rparr>)"
    by code_simp
  from a b c d show ?thesis by blast
qed

text \<open>
  C5.  When the input directory holds no regular file with a supported extension, the
  listing is empty.  With the detector constructed, \<open>main\<close> then prints
  \<open>No images found in <directory>\<close> to the error stream and returns 1, which is the
  exit status; when the model does not load, its exception ends the run before that
  report.  The file system at the end is the one \<open>mkdir\<close> left: no file has been
  written or changed, and no image was read.
\<close>

theorem no_images_returns_one:
  assumes "in_dir args = Some ind" "is_dir (disk st) ind" "out_dir args = Some outd"
      and "mkdir (disk st) outd = Inr fs1"
      and "\<forall>n. is_file (disk st) (ind @ [n]) \<longrightarrow> lower (suffix (ind @ [n])) \<notin> exts"
  shows "iter_images fs1 ind = Inr [] \<and>
         (\<forall>det th. from_path lib fs1 (model_path args) = Inr det \<and>
                   Threshold lib (threshold args) = Inr th \<longrightarrow>
            main lib st args =
              (Return 1, st\<lparr>disk := fs1,
                            stderr := stderr st @ [''No images found in '' @ path_str ind]\<rparr>) \<and>
            exit_status (fst (main lib st args)) = Some 1) \<and>
         (\<forall>e. from_path lib fs1 (model_path args) = Inl e \<longrightarrow>
            main lib st args = (Raise e, st\<lparr>disk := fs1\<rparr>)) \<and>
         (\<forall>q b. (lookup fs1 q = Some (File b)) = (lookup (disk st) q = Some (File b)))"
proof -
  have d: "is_dir fs1 ind" using assms(4,2) by (rule mkdir_keeps_dir)
  from iter_images_props[OF d] obtain ps where run: "iter_images fs1 ind = Inr ps"
    and s: "set ps = {p. (\<exists>n. p = ind @ [n]) \<and> is_file fs1 p \<and> lower (suffix p) \<in> exts}"
    by blast
  have "set ps = {}"
    unfolding s using assms(5) by (auto simp: mkdir_is_file[OF assms(4)])
  then have e: "iter_images fs1 ind = Inr []" using run by simp
  have m1: "\<forall>det th. from_path lib fs1 (model_path args) = Inr det \<and>
                   Threshold lib (threshold args) = Inr th \<longrightarrow>
            main lib st args =
              (Return 1, st\<lparr>disk := fs1,
                            stderr := stderr st @ [''No images found in '' @ path_str ind]\<rparr>) \<and>
            exit_status (fst (main lib st args)) = Some 1"
    using assms(1-4) e by (simp add: main_def exit_status_def)
  have m2: "\<forall>e. from_path lib fs1 (model_path args) = Inl e \<longrightarrow>
            main lib st args = (Raise e, st\<lparr>disk := fs1\<rparr>)"
    using assms(1-4) by (simp add: main_def)
  have f: "\<forall>q b. (lookup fs1 q = Some (File b)) = (lookup (disk st) q = Some (File b))"
    using mkdir_lookup[OF assms(4)] by (metis node.distinct(1) option.distinct(1) option.inject)
  from e m1 m2 f show ?thesis by blast
qed

theorem no_images_returns_one_witness:
  "iter_images ex_fs_out [''models''] = Inr [] \<and>
   main ex_lib ex_state (ex_args\<lparr>in_dir := Some [''models'']\<rparr>) =
     (Return 1, ex_state\<lparr>disk := ex_fs_out,
                        stderr := stderr ex_state @ [''No images found in '' @ path_str [''models'']]\<rparr>) \<and>
   exit_status (fst (main ex_lib ex_state (ex_args\<lparr>in_dir := Some [''models'']\<rparr>))) = Some 1"
proof -
  let ?args = "ex_args\<lparr>in_dir := Some [''models'']\<rparr>"
  have h1: "in_dir ?args = Some [''models'']" by simp
  have h2: "is_dir (disk ex_state) [''models'']" by code_simp
  have h3: "out_dir ?args = Some [''out'', ''faces'']" by (simp add: ex_args_def)
  have h4: "mkdir (disk ex_state) [''out'', ''faces''] = Inr ex_fs_out" by code_simp
  have s: "lower (suffix ([''models''] @ [''scrfd.onnx''])) \<notin> exts" by code_simp
  have h5: "\<forall>n. is_file (disk ex_state) ([''models''] @ [n]) \<longrightarrow>
               lower (suffix ([''models''] @ [n])) \<notin> exts"
  proof (intro allI impI)
    fix n assume "is_file (disk ex_state) ([''models''] @ [n])"
    then have "n = ''scrfd.onnx''"
      by (simp add: is_file_def lookup_def ex_state_def ex_fs_def split: if_splits)
    then show "lower (suffix ([''models''] @ [n])) \<notin> exts" using s by simp
  qed
  have f: "from_path ex_lib ex_fs_out (model_path ?args) = Inr ()" by code_simp
  have t: "Threshold ex_lib (threshold ?args) = Inr 40" by code_simp
  from no_images_returns_one[OF h1 h2 h3 h4 h5, of ex_lib] f t show ?thesis by blast
qed

text \<open>
  C6.  For an image that decodes and converts and for which the detector returns no
  faces, \<open>detect_on_image\<close> returns the converted image itself, whatever the drawing
  primitives are: none of them is applied.  The iteration then saves the encoding of
  that image under \<open>out_dir / <the input's file name>\<close> and goes on, one output for the
  input.
\<close>

theorem no_faces_image_unchanged:
  assumes "lookup (disk st) p = Some (File bytes)"
      and "image_open lib bytes = Inr img0"
      and "convert lib img0 ''RGB'' = Inr img"
      and "detect lib det img th = Inr []"
      and "Draw lib img = None"
  shows "detect_on_image lib (disk st) det p th = Inr img \<and>
         detect_on_image (lib\<lparr>rectangle := r, ellipse := e\<rparr>) (disk st) det p th = Inr img \<and>
         (\<forall>b fs'. save_encode lib img (name p) = Inr b \<and>
                  write_file (disk st) (outd @ [name p]) b = Inr fs' \<longrightarrow>
            process_images lib det th outd (p # rest) st =
              process_images lib det th outd rest (st\<lparr>disk := fs'\<rparr>) \<and>
            lookup fs' (outd @ [name p]) = Some (File b) \<and>
            name (outd @ [name p]) = name p)"
proof -
  have d: "detect_on_image lib (disk st) det p th = Inr img"
    using assms by (simp add: detect_on_image_def Image_open_def)
  have d': "detect_on_image (lib\<lparr>rectangle := r, ellipse := e\<rparr>) (disk st) det p th = Inr img"
    using assms by (simp add: detect_on_image_def Image_open_def)
  have s: "\<forall>b fs'. save_encode lib img (name p) = Inr b \<and>
                  write_file (disk st) (outd @ [name p]) b = Inr fs' \<longrightarrow>
            process_images lib det th outd (p # rest) st =
              process_images lib det th outd rest (st\<lparr>disk := fs'\<rparr>) \<and>
            lookup fs' (outd @ [name p]) = Some (File b) \<and>
            name (outd @ [name p]) = name p"
  proof (intro allI impI, elim conjE)
    fix b fs'
    assume enc: "save_encode lib img (name p) = Inr b"
      and w: "write_file (disk st) (outd @ [name p]) b = Inr fs'"
    have sv: "save lib (disk st) img (outd @ [name p]) = Inr fs'"
      using enc w by (simp add: save_def name_child)
    have run: "process_images lib det th outd (p # rest) st =
              process_images lib det th outd rest (st\<lparr>disk := fs'\<rparr>)"
      using d sv by (simp add: Let_def)
    have "fs' = AList.update (outd @ [name p]) (File b) (disk st)"
      using w unfolding write_file_Inr by blast
    then have l: "lookup fs' (outd @ [name p]) = Some (File b)" by (simp add: lookup_update)
    from run l show "process_images lib det th outd (p # rest) st =
              process_images lib det th outd rest (st\<lparr>disk := fs'\<rparr>) \<and>
            lookup fs' (outd @ [name p]) = Some (File b) \<and>
            name (outd @ [name p]) = name p" by (simp add: name_child)
  qed
  from d d' s show ?thesis by blast
qed

theorem no_faces_image_unchanged_witness:
  "detect_on_image ex_lib (disk (ex_state\<lparr>disk := ex_fs_out\<rparr>)) () [''in'', ''c.webp''] 40 = Inr ''nobody'' \<and>
   process_images ex_lib () 40 [''out'', ''faces''] ([''in'', ''c.webp''] # []) (ex_state\<lparr>disk := ex_fs_out\<rparr>) =
     process_images ex_lib () 40 [''out'', ''faces''] []
       (ex_state\<lparr>disk := ex_fs_out @ [([''out'', ''faces'', ''c.webp''], File ''nobody'')]\<rparr>) \<and>
   lookup (ex_fs_out @ [([''out'', ''faces'', ''c.webp''], File ''nobody'')])
     ([''out'', ''faces''] @ [name [''in'', ''c.webp'']]) = Some (File ''nobody'')"
proof -
  let ?st = "ex_state\<lparr>disk := ex_fs_out\<rparr>" and ?c = "[''in'', ''c.webp'']"
  let ?fs' = "ex_fs_out @ [([''out'', ''faces'', ''c.webp''], File ''nobody'')]"
  have h1: "lookup (disk ?st) ?c = Some (File ''nobody'')" by code_simp
  have h2: "image_open ex_lib ''nobody'' = Inr ''nobody''" by code_simp
  have h3: "convert ex_lib ''nobody'' ''RGB'' = Inr ''nobody''" by code_simp
  have h4: "detect ex_lib () ''nobody'' 40 = Inr []" by code_simp
  have h5: "Draw ex_lib ''nobody'' = None" by code_simp
  have e: "save_encode ex_lib ''nobody'' (name ?c) = Inr ''nobody''" by code_simp
  have w: "write_file (disk ?st) ([''out'', ''faces''] @ [name ?c]) ''nobody'' = Inr ?fs'" by code_simp
  note t = no_faces_image_unchanged[OF h1 h2 h3 h4 h5, where outd = "[''out'', ''faces'']" and rest = "[]"]
  have a: "detect_on_image ex_lib (disk ?st) () ?c 40 = Inr ''nobody''" using t by blast
  have "process_images ex_lib () 40 [''out'', ''faces''] (?c # []) ?st =
          process_images ex_lib () 40 [''out'', ''faces''] [] (?st\<lparr>disk := ?fs'\<rparr>) \<and>
        lookup ?fs' ([''out'', ''faces''] @ [name ?c]) = Some (File ''nobody'')"
    using t e w by blast
  then have b: "process_images ex_lib () 40 [''out'', ''faces''] (?c # []) ?st =
          process_images ex_lib () 40 [''out'', ''faces''] [] (ex_state\<lparr>disk := ?fs'\<rparr>)"
    and c: "lookup ?fs' ([''out'', ''faces''] @ [name ?c]) = Some (File ''nobody'')"
    by simp_all
  from a b c show ?thesis by blast
qed

text \<open>
  C7.  The annotation of an image is the run of the drawing calls of its faces, in the
  order of the faces, on the same image, which is what is returned (it stops at the
  first call that raises).  Each face contributes six calls: one rectangle outline in
  red, of width 3, through the upper-left and lower-right corners of its bounding box,
  then five ellipses with red outline and red fill for the left eye, the right eye, the
  nose and the left and right mouth corners.  Each ellipse is inscribed in the square of
  side 6 centred at its keypoint, that is, a circle of radius 3.
\<close>

theorem annotator_draw_calls:
  fixes lib :: "('img, 'det, 'th, 'f, 'c::comm_ring_1) library"
  shows "draw_faces lib img faces = run_calls lib img (concat (map face_calls faces)) \<and>
         length (concat (map face_calls faces)) = 6 * length faces \<and>
         (\<forall>face :: 'c face. face_calls face =
            [Rectangle [point_x (upper_left (bbox face)), point_y (upper_left (bbox face)),
                        point_x (lower_right (bbox face)), point_y (lower_right (bbox face))] ''red'' 3,
             marker (left_eye (keypoints face)), marker (right_eye (keypoints face)),
             marker (nose (keypoints face)),
             marker (left_mouth (keypoints face)), marker (right_mouth (keypoints face))]) \<and>
         (\<forall>k :: 'c point. \<exists>x0 y0 x1 y1. marker k = Ellipse (x0, y0, x1, y1) ''red'' ''red'' \<and>
            x1 - x0 = 6 \<and> y1 - y0 = 6 \<and> x0 + x1 = 2 * point_x k \<and> y0 + y1 = 2 * point_y k) \<and>
         (\<forall>fs det p th img0 img1 fcs.
            Image_open lib fs p = Inr img0 \<and> convert lib img0 ''RGB'' = Inr img1 \<and>
            detect lib det img1 th = Inr fcs \<and> Draw lib img1 = None \<longrightarrow>
            detect_on_image lib fs det p th = run_calls lib img1 (concat (map face_calls fcs)))"
proof -
  have a: "draw_faces lib img faces = run_calls lib img (concat (map face_calls faces))"
    by (rule draw_faces_run_calls)
  have b: "length (concat (map face_calls faces)) = 6 * length faces"
    by (induction faces) (simp_all add: face_calls_def)
  have c: "\<forall>face :: 'c face. face_calls face =
            [Rectangle [point_x (upper_left (bbox face)), point_y (upper_left (bbox face)),
                        point_x (lower_right (bbox face)), point_y (lower_right (bbox face))] ''red'' 3,
             marker (left_eye (keypoints face)), marker (right_eye (keypoints face)),
             marker (nose (keypoints face)),
             marker (left_mouth (keypoints face)), marker (right_mouth (keypoints face))]"
    by (simp add: face_calls_def)
  have d: "\<forall>k :: 'c point. \<exists>x0 y0 x1 y1. marker k = Ellipse (x0, y0, x1, y1) ''red'' ''red'' \<and>
            x1 - x0 = 6 \<and> y1 - y0 = 6 \<and> x0 + x1 = 2 * point_x k \<and> y0 + y1 = 2 * point_y k"
  proof (intro allI)
    fix k :: "'c point"
    show "\<exists>x0 y0 x1 y1. marker k = Ellipse (x0, y0, x1, y1) ''red'' ''red'' \<and>
            x1 - x0 = 6 \<and> y1 - y0 = 6 \<and> x0 + x1 = 2 * point_x k \<and> y0 + y1 = 2 * point_y k"
      by (rule exI[of _ "point_x k - 3"], rule exI[of _ "point_y k - 3"],
          rule exI[of _ "point_x k + 3"], rule exI[of _ "point_y k + 3"])
         (simp add: marker_def algebra_simps mult_2)
  qed
  have e: "\<forall>fs det p th img0 img1 fcs.
            Image_open lib fs p = Inr img0 \<and> convert lib img0 ''RGB'' = Inr img1 \<and>
            detect lib det img1 th = Inr fcs \<and> Draw lib img1 = None \<longrightarrow>
            detect_on_image lib fs det p th = run_calls lib img1 (concat (map face_calls fcs))"
    by (simp add: detect_on_image_def draw_faces_run_calls)
  from a b c d e show ?thesis by blast
qed

theorem annotator_draw_calls_witness:
  "draw_faces ex_lib ''pixels'' [ex_face] = run_calls ex_lib ''pixels'' (concat (map face_calls [ex_face])) \<and>
   draw_faces ex_lib ''pixels'' [ex_face] = Inr ''pixels[]ooooo'' \<and>
   face_calls ex_face =
     [Rectangle [10, 20, 50, 70] ''red'' 3,
      Ellipse (17, 27, 23, 33) ''red'' ''red'', Ellipse (37, 27, 43, 33) ''red'' ''red'',
      Ellipse (27, 37, 33, 43) ''red'' ''red'', Ellipse (19, 52, 25, 58) ''red'' ''red'',
      Ellipse (35, 52, 41, 58) ''red'' ''red''] \<and>
   detect_on_image ex_lib ex_fs_out () [''in'', ''b.PNG''] 40 =
     run_calls ex_lib ''pixels'' (concat (map face_calls [ex_face]))"
proof -
  have v: "draw_faces ex_lib ''pixels'' [ex_face] = Inr ''pixels[]ooooo''" by code_simp
  have f: "face_calls ex_face =
     [Rectangle [10, 20, 50, 70] ''red'' 3,
      Ellipse (17, 27, 23, 33) ''red'' ''red'', Ellipse (37, 27, 43, 33) ''red'' ''red'',
      Ellipse (27, 37, 33, 43) ''red'' ''red'', Ellipse (19, 52, 25, 58) ''red'' ''red'',
      Ellipse (35, 52, 41, 58) ''red'' ''red'']"
    by (simp add: face_calls_def marker_def ex_face_def pt_def)
  have o: "Image_open ex_lib ex_fs_out [''in'', ''b.PNG''] = Inr ''pixels''" by code_simp
  have c: "convert ex_lib ''pixels'' ''RGB'' = Inr ''pixels''" by code_simp
  have t: "detect ex_lib () ''pixels'' 40 = Inr [ex_face]" by code_simp
  have w: "Draw ex_lib ''pixels'' = None" by code_simp
  from annotator_draw_calls[of ex_lib "''pixels''" "[ex_face]"] v f o c t w
  show ?thesis by blast
qed

text \<open>
  C8.  Let the file system be well formed and the set-up succeed.  Then \<open>mkdir\<close> has made
  the output directory, keeping every existing node: when the loop starts, the output
  directory and each of its ancestors is a directory, and so they are at the end.
  However the run ends, it has gone through the first \<open>k\<close> listed images (all of them
  when it returns 0; when an exception ends it, the image at position \<open>k\<close> is the one
  whose iteration raised it), and it has changed the file system by their outputs alone:
  one file per image among them that \<open>detect_on_image\<close> annotated, at
  \<open>out_dir / <the input's file name>\<close>, the paths pairwise distinct, each holding the
  encoding of the annotated image.
\<close>

theorem output_files_written:
  assumes "wf_fs (disk st)"
      and "in_dir args = Some ind" "is_dir (disk st) ind" "out_dir args = Some outd"
      and "mkdir (disk st) outd = Inr fs1"
      and "from_path lib fs1 (model_path args) = Inr det"
      and "Threshold lib (threshold args) = Inr th"
      and "iter_images fs1 ind = Inr ps"
      and "main lib st args = (r, st')"
  shows "(\<forall>j. is_dir fs1 (take j outd)) \<and>
         (\<forall>q n. lookup (disk st) q = Some n \<longrightarrow> lookup fs1 q = Some n) \<and>
         (\<forall>j. is_dir (disk st') (take j outd)) \<and>
         (\<exists>k. k \<le> length ps \<and> (r = Return 0 \<longrightarrow> k = length ps) \<and>
              (\<forall>e. r = Raise e \<longrightarrow>
                 k < length ps \<and> process_images lib det th outd [ps ! k] st' = (Some e, st')) \<and>
              disk st' = write_all (outputs lib fs1 det th outd (take k ps)) fs1 \<and>
              distinct (map fst (outputs lib fs1 det th outd (take k ps))) \<and>
              map fst (outputs lib fs1 det th outd (take k ps)) =
                map (\<lambda>p. outd @ [name p])
                  (filter (\<lambda>p. \<exists>img. detect_on_image lib fs1 det p th = Inr img) (take k ps)) \<and>
              (\<forall>p\<in>set (take k ps). \<forall>img. detect_on_image lib fs1 det p th = Inr img \<longrightarrow>
                 (\<exists>b. save_encode lib img (name p) = Inr b \<and>
                      lookup (disk st') (outd @ [name p]) = Some (File b))))"
proof -
  let ?D = "\<lambda>p. detect_on_image lib fs1 det p th"
  have d: "is_dir fs1 ind" using assms(5,3) by (rule mkdir_keeps_dir)
  note b = iter_images_batch[OF d assms(8)]
  have anc: "\<forall>j. is_dir fs1 (take j outd)"
    using mkdir_ancestors[OF assms(1) assms(5)] by blast
  have keep: "\<forall>q n. lookup (disk st) q = Some n \<longrightarrow> lookup fs1 q = Some n"
    using mkdir_keeps[OF assms(5)] by blast
  from main_outcome[OF assms(2-9)] obtain k where k: "k \<le> length ps"
    and full: "r = Return 0 \<longrightarrow> k = length ps"
    and stop: "\<forall>e. r = Raise e \<longrightarrow>
                 k < length ps \<and> process_images lib det th outd [ps ! k] st' = (Some e, st')"
    and dk: "disk st' = write_all (outputs lib fs1 det th outd (take k ps)) fs1"
    and pre: "ps \<noteq> [] \<longrightarrow>
                process_images lib det th outd (take k ps) (st\<lparr>disk := fs1\<rparr>) = (None, st')"
    by blast
  let ?ps = "take k ps"
  let ?W = "outputs lib fs1 det th outd ?ps"
  have sub: "\<And>q. q \<in> set ?ps \<Longrightarrow> q \<in> set ps" by (rule in_set_takeD)
  have dn: "distinct (map name ?ps)" using b(1) by (simp add: take_map[symmetric])
  have anc': "\<forall>j. is_dir (disk st') (take j outd)"
  proof
    fix j
    have "lookup (write_all ?W fs1) (take j outd) = lookup fs1 (take j outd)"
      by (rule lookup_not_output) (rule take_not_child)
    then show "is_dir (disk st') (take j outd)" using anc dk by (simp add: is_dir_def)
  qed
  have dis: "distinct (map fst ?W)" using dn by (rule outputs_distinct)
  have sv: "(\<exists>msg. ?D p = Inl (Exc msg)) \<or>
            (\<exists>img c. ?D p = Inr img \<and> save_encode lib img (name p) = Inr c)" if "p \<in> set ?ps" for p
  proof -
    have ne: "ps \<noteq> []" using that by auto
    then have run: "process_images lib det th outd ?ps (st\<lparr>disk := fs1\<rparr>) = (None, st')"
      using pre by blast
    show ?thesis
    proof (rule process_images_None_saves[OF _ _ _ run that])
      show "distinct ?ps" using b(3) by simp
      fix x y assume "x \<in> set ?ps" "y \<in> set ?ps" "outd @ [name y] = x"
      then show "y = x" using b(6)[of x y outd] sub by blast
    next
      fix q show "lookup (disk (st\<lparr>disk := fs1\<rparr>)) q = lookup fs1 q" by simp
    qed
  qed
  have "filter (\<lambda>p. \<exists>img c. ?D p = Inr img \<and> save_encode lib img (name p) = Inr c) ?ps =
        filter (\<lambda>p. \<exists>img. ?D p = Inr img) ?ps"
  proof (rule filter_cong[OF refl])
    fix p assume "p \<in> set ?ps"
    from sv[OF this]
    show "(\<exists>img c. ?D p = Inr img \<and> save_encode lib img (name p) = Inr c) = (\<exists>img. ?D p = Inr img)"
      by auto
  qed
  then have keys: "map fst ?W = map (\<lambda>p. outd @ [name p]) (filter (\<lambda>p. \<exists>img. ?D p = Inr img) ?ps)"
    by (simp only: outputs_keys)
  have good: "\<forall>p\<in>set ?ps. \<forall>img. ?D p = Inr img \<longrightarrow>
              (\<exists>c. save_encode lib img (name p) = Inr c \<and>
                   lookup (disk st') (outd @ [name p]) = Some (File c))"
  proof (intro ballI allI impI)
    fix p img assume p: "p \<in> set ?ps" and i: "?D p = Inr img"
    from sv[OF p] i obtain c where e: "save_encode lib img (name p) = Inr c" by auto
    have "lookup (disk st') (outd @ [name p]) = Some (File c)"
      unfolding dk using dn p i e by (rule lookup_output_written)
    with e show "\<exists>c. save_encode lib img (name p) = Inr c \<and>
                   lookup (disk st') (outd @ [name p]) = Some (File c)" by blast
  qed
  from anc keep anc' k full stop dk dis keys good show ?thesis by blast
qed


theorem output_files_written_witness:
  "wf_fs ex_fs_blocked_c \<and>
   fst (main ex_lib \<lparr>disk = ex_fs_blocked_c, stderr = []\<rparr> ex_args) = Raise (Exc ''Is a directory'') \<and>
   is_dir (disk (snd (main ex_lib \<lparr>disk = ex_fs_blocked_c, stderr = []\<rparr> ex_args))) [''out'', ''faces''] \<and>
   lookup (disk (snd (main ex_lib \<lparr>disk = ex_fs_blocked_c, stderr = []\<rparr> ex_args)))
     ([''out'', ''faces''] @ [name [''in'', ''b.PNG'']]) = Some (File ''pixels[]ooooo'') \<and>
   \<not> is_dir (disk ex_state) [''out''] \<and>
   fst (main ex_lib ex_state ex_args) = Return 0 \<and>
   is_dir (disk (snd (main ex_lib ex_state ex_args))) [''out''] \<and>
   is_dir (disk (snd (main ex_lib ex_state ex_args))) [''out'', ''faces''] \<and>
   lookup (disk (snd (main ex_lib ex_state ex_args)))
     ([''out'', ''faces''] @ [name [''in'', ''b.PNG'']]) = Some (File ''pixels[]ooooo'') \<and>
   lookup (disk (snd (main ex_lib ex_state ex_args)))
     ([''out'', ''faces''] @ [name [''in'', ''c.webp'']]) = Some (File ''nobody'')"
proof -
  let ?a = "[''in'', ''a.jpg'']" and ?b = "[''in'', ''b.PNG'']" and ?c = "[''in'', ''c.webp'']"
  let ?out = "[''out'', ''faces'']"
  let ?ps = "[?a, ?b, ?c]"
  have h2: "in_dir ex_args = Some [''in'']" by (simp add: ex_args_def)
  have h4: "out_dir ex_args = Some ?out" by (simp add: ex_args_def)
  have h7: "Threshold ex_lib (threshold ex_args) = Inr 40" by code_simp
  have enc_b: "save_encode ex_lib ''pixels[]ooooo'' (name ?b) = Inr ''pixels[]ooooo''" by code_simp
  have enc_c: "save_encode ex_lib ''nobody'' (name ?c) = Inr ''nobody''" by code_simp

  \<comment> \<open>the run that the save of \<open>c.webp\<close> ends\<close>
  let ?s = "\<lparr>disk = ex_fs_blocked_c, stderr = []\<rparr>"
  let ?r = "fst (main ex_lib ?s ex_args)" and ?s' = "snd (main ex_lib ?s ex_args)"
  have w: "wf_fs (disk ?s)" by code_simp
  have w0: "wf_fs ex_fs_blocked_c" by code_simp
  have g3: "is_dir (disk ?s) [''in'']" by code_simp
  have g5: "mkdir (disk ?s) ?out = Inr ex_fs_blocked_c" by code_simp
  have g6: "from_path ex_lib ex_fs_blocked_c (model_path ex_args) = Inr ()" by code_simp
  have g8: "iter_images ex_fs_blocked_c [''in''] = Inr ?ps" by code_simp
  have g9: "main ex_lib ?s ex_args = (?r, ?s')" by simp
  have r: "?r = Raise (Exc ''Is a directory'')" by code_simp
  have na: "process_images ex_lib () 40 ?out [?a] ?s' \<noteq> (Some (Exc ''Is a directory''), ?s')"
    by code_simp
  have nb: "process_images ex_lib () 40 ?out [?b] ?s' \<noteq> (Some (Exc ''Is a directory''), ?s')"
    by code_simp
  have db: "detect_on_image ex_lib ex_fs_blocked_c () ?b 40 = Inr ''pixels[]ooooo''" by code_simp
  note t = output_files_written[OF w h2 g3 h4 g5 g6 h7 g8 g9]
  have dir1: "is_dir (disk ?s') ?out"
  proof -
    have "is_dir (disk ?s') (take 2 ?out)" using t by blast
    then show ?thesis by simp
  qed
  from t obtain k where k: "k \<le> length ?ps"
    and stop: "\<forall>e. ?r = Raise e \<longrightarrow>
                 k < length ?ps \<and> process_images ex_lib () 40 ?out [?ps ! k] ?s' = (Some e, ?s')"
    and good: "\<forall>p\<in>set (take k ?ps). \<forall>img. detect_on_image ex_lib ex_fs_blocked_c () p 40 = Inr img \<longrightarrow>
                 (\<exists>b. save_encode ex_lib img (name p) = Inr b \<and>
                      lookup (disk ?s') (?out @ [name p]) = Some (File b))"
    by blast
  from stop r have k3: "k < length ?ps"
    and ab: "process_images ex_lib () 40 ?out [?ps ! k] ?s' = (Some (Exc ''Is a directory''), ?s')"
    by blast+
  have "k = 0 \<or> k = 1 \<or> k = 2" using k3 by auto
  then have k2: "k = 2"
  proof (elim disjE)
    assume "k = 0" then show ?thesis using ab na by simp
  next
    assume "k = 1" then show ?thesis using ab nb by simp
  next
    assume "k = 2" then show ?thesis .
  qed
  have "?b \<in> set (take k ?ps)" unfolding k2 by (simp add: numeral_2_eq_2)
  from good[rule_format, OF this db] enc_b
  have file1: "lookup (disk ?s') (?out @ [name ?b]) = Some (File ''pixels[]ooooo'')" by auto

  \<comment> \<open>the run that goes through\<close>
  let ?q = "fst (main ex_lib ex_state ex_args)" and ?e' = "snd (main ex_lib ex_state ex_args)"
  have v: "wf_fs (disk ex_state)" by code_simp
  have nd: "\<not> is_dir (disk ex_state) [''out'']" by code_simp
  have e3: "is_dir (disk ex_state) [''in'']" by code_simp
  have e5: "mkdir (disk ex_state) ?out = Inr ex_fs_out" by code_simp
  have e6: "from_path ex_lib ex_fs_out (model_path ex_args) = Inr ()" by code_simp
  have e8: "iter_images ex_fs_out [''in''] = Inr ?ps" by code_simp
  have e9: "main ex_lib ex_state ex_args = (?q, ?e')" by simp
  have q: "?q = Return 0" by code_simp
  have fb: "detect_on_image ex_lib ex_fs_out () ?b 40 = Inr ''pixels[]ooooo''" by code_simp
  have fc: "detect_on_image ex_lib ex_fs_out () ?c 40 = Inr ''nobody''" by code_simp
  note u = output_files_written[OF v h2 e3 h4 e5 e6 h7 e8 e9]
  have dir2: "is_dir (disk ?e') [''out'']"
  proof -
    have "is_dir (disk ?e') (take 1 ?out)" using u by blast
    then show ?thesis by simp
  qed
  have dir3: "is_dir (disk ?e') ?out"
  proof -
    have "is_dir (disk ?e') (take 2 ?out)" using u by blast
    then show ?thesis by simp
  qed
  from u obtain m where full: "?q = Return 0 \<longrightarrow> m = length ?ps"
    and good2: "\<forall>p\<in>set (take m ?ps). \<forall>img. detect_on_image ex_lib ex_fs_out () p 40 = Inr img \<longrightarrow>
                 (\<exists>b. save_encode ex_lib img (name p) = Inr b \<and>
                      lookup (disk ?e') (?out @ [name p]) = Some (File b))"
    by blast
  have m: "m = length ?ps" using full q by blast
  have inb: "?b \<in> set (take m ?ps)" and inc: "?c \<in> set (take m ?ps)" unfolding m by simp_all
  from good2[rule_format, OF inb fb] enc_b
  have file2: "lookup (disk ?e') (?out @ [name ?b]) = Some (File ''pixels[]ooooo'')" by auto
  from good2[rule_format, OF inc fc] enc_c
  have file3: "lookup (disk ?e') (?out @ [name ?c]) = Some (File ''nobody'')" by auto
  from w0 r dir1 file1 nd q dir2 dir3 file2 file3 show ?thesis by blast
qed




text \<open>
  C10.  Let the set-up succeed and \<open>detect_on_image\<close> raise an \<open>Exception\<close> for a listed
  image.  Then, however the run ends, what is at \<open>out_dir / <that image's file name>\<close>
  at the end is what was there when the loop started: no output is written for it.
  The iteration itself, wherever it stands in the batch, only adds the line to the
  error stream and leaves the file system as it is.
\<close>

theorem failed_image_leaves_no_output:
  assumes "in_dir args = Some ind" "is_dir (disk st) ind" "out_dir args = Some outd"
      and "mkdir (disk st) outd = Inr fs1"
      and "from_path lib fs1 (model_path args) = Inr det"
      and "Threshold lib (threshold args) = Inr th"
      and "iter_images fs1 ind = Inr ps"
      and "main lib st args = (r, st')"
      and "p \<in> set ps" and "detect_on_image lib fs1 det p th = Inl (Exc msg)"
  shows "lookup (disk st') (outd @ [name p]) = lookup fs1 (outd @ [name p]) \<and>
         (\<forall>ps1 s s1. process_images lib det th outd ps1 s = (None, s1) \<and>
                     detect_on_image lib (disk s1) det p th = Inl (Exc msg) \<longrightarrow>
            process_images lib det th outd (ps1 @ [p]) s =
              (None, s1\<lparr>stderr := stderr s1 @ [''Failed on '' @ name p @ '': '' @ msg]\<rparr>))"
proof -
  have ne: "ps \<noteq> []" using assms(9) by auto
  have d: "is_dir fs1 ind" using assms(4,2) by (rule mkdir_keeps_dir)
  note b = iter_images_batch[OF d assms(7)]
  obtain r0 where run: "process_images lib det th outd ps (st\<lparr>disk := fs1\<rparr>) = (r0, st')"
    using main_run[OF assms(1-7) ne] assms(8)
    by (cases "process_images lib det th outd ps (st\<lparr>disk := fs1\<rparr>)")
       (auto split: option.splits)
  from process_images_prefix[OF run] obtain k where
    pre: "process_images lib det th outd (take k ps) (st\<lparr>disk := fs1\<rparr>) = (None, st')"
    by blast
  have sub: "\<And>q. q \<in> set (take k ps) \<Longrightarrow> q \<in> set ps" by (rule in_set_takeD)
  have "st' = (st\<lparr>disk := fs1\<rparr>)\<lparr>disk := write_all (outputs lib fs1 det th outd (take k ps)) (disk (st\<lparr>disk := fs1\<rparr>)),
                  stderr := stderr (st\<lparr>disk := fs1\<rparr>) @ failures lib fs1 det th (take k ps)\<rparr>"
  proof (rule process_images_closed_form[OF _ _ _ pre])
    show "distinct (take k ps)" using b(3) by simp
    fix x y assume "x \<in> set (take k ps)" "y \<in> set (take k ps)" "outd @ [name y] = x"
    then show "y = x" using b(6)[of x y outd] sub by blast
  next
    fix q show "lookup (disk (st\<lparr>disk := fs1\<rparr>)) q = lookup fs1 q" by simp
  qed
  then have dk: "disk st' = write_all (outputs lib fs1 det th outd (take k ps)) fs1" by simp
  have "lookup (write_all (outputs lib fs1 det th outd (take k ps)) fs1) (outd @ [name p]) =
        lookup fs1 (outd @ [name p])"
  proof (rule lookup_write_all_other)
    fix g c assume "(g, c) \<in> set (outputs lib fs1 det th outd (take k ps))"
    then obtain q img where q: "q \<in> set (take k ps)" "detect_on_image lib fs1 det q th = Inr img"
      "g = outd @ [name q]" unfolding outputs_set by blast
    have "q \<noteq> p" using q(2) assms(10) by auto
    then have "name q \<noteq> name p" using distinct_names_inj[OF b(1) sub[OF q(1)] assms(9)] by blast
    then show "g \<noteq> [] \<and> g \<noteq> outd @ [name p]" using q(3) by simp
  qed
  then have first: "lookup (disk st') (outd @ [name p]) = lookup fs1 (outd @ [name p])"
    by (simp only: dk)
  have second: "\<forall>ps1 s s1. process_images lib det th outd ps1 s = (None, s1) \<and>
                     detect_on_image lib (disk s1) det p th = Inl (Exc msg) \<longrightarrow>
            process_images lib det th outd (ps1 @ [p]) s =
              (None, s1\<lparr>stderr := stderr s1 @ [''Failed on '' @ name p @ '': '' @ msg]\<rparr>)"
    by (simp add: process_images_append)
  from first second show ?thesis by blast
qed

theorem failed_image_leaves_no_output_witness:
  "lookup (disk (snd (main ex_lib ex_state ex_args))) ([''out'', ''faces''] @ [name [''in'', ''a.jpg'']]) =
     lookup ex_fs_out ([''out'', ''faces''] @ [name [''in'', ''a.jpg'']]) \<and>
   lookup ex_fs_out ([''out'', ''faces''] @ [name [''in'', ''a.jpg'']]) = None \<and>
   process_images ex_lib () 40 [''out'', ''faces''] ([] @ [[''in'', ''a.jpg'']]) (ex_state\<lparr>disk := ex_fs_out\<rparr>) =
     (None, (ex_state\<lparr>disk := ex_fs_out\<rparr>)\<lparr>stderr := stderr (ex_state\<lparr>disk := ex_fs_out\<rparr>) @
        [''Failed on '' @ name [''in'', ''a.jpg''] @ '': '' @ ''inference failed'']\<rparr>)"
proof -
  let ?a = "[''in'', ''a.jpg'']" and ?b = "[''in'', ''b.PNG'']" and ?c = "[''in'', ''c.webp'']"
  let ?out = "[''out'', ''faces'']"
  let ?s = "ex_state\<lparr>disk := ex_fs_out\<rparr>"
  have h1: "in_dir ex_args = Some [''in'']" by (simp add: ex_args_def)
  have h2: "is_dir (disk ex_state) [''in'']" by code_simp
  have h3: "out_dir ex_args = Some ?out" by (simp add: ex_args_def)
  have h4: "mkdir (disk ex_state) ?out = Inr ex_fs_out" by code_simp
  have h5: "from_path ex_lib ex_fs_out (model_path ex_args) = Inr ()" by code_simp
  have h6: "Threshold ex_lib (threshold ex_args) = Inr 40" by code_simp
  have h7: "iter_images ex_fs_out [''in''] = Inr [?a, ?b, ?c]" by code_simp
  have h8: "main ex_lib ex_state ex_args = (fst (main ex_lib ex_state ex_args), snd (main ex_lib ex_state ex_args))"
    by simp
  have h9: "?a \<in> set [?a, ?b, ?c]" by simp
  have h10: "detect_on_image ex_lib ex_fs_out () ?a 40 = Inl (Exc ''inference failed'')" by code_simp
  note t = failed_image_leaves_no_output[OF h1 h2 h3 h4 h5 h6 h7 h8 h9 h10]
  have a: "lookup (disk (snd (main ex_lib ex_state ex_args))) (?out @ [name ?a]) =
             lookup ex_fs_out (?out @ [name ?a])" using t by blast
  have n: "lookup ex_fs_out (?out @ [name ?a]) = None" by code_simp
  have p0: "process_images ex_lib () 40 ?out [] ?s = (None, ?s)" by simp
  have d0: "detect_on_image ex_lib (disk ?s) () ?a 40 = Inl (Exc ''inference failed'')"
    using h10 by simp
  have c: "process_images ex_lib () 40 ?out ([] @ [?a]) ?s =
     (None, ?s\<lparr>stderr := stderr ?s @ [''Failed on '' @ name ?a @ '': '' @ ''inference failed'']\<rparr>)"
    using t p0 d0 by blast
  from a n c show ?thesis by blast
qed
end
